(* ===== verification/Prelude.thy ===== *)
theory Prelude
  imports Main
begin

text \<open>
  Shared vocabulary of the Minesweeper development (\<^verbatim>\<open>src/minesweeper.py\<close>).
  A board cell is the Python tuple \<open>(i, j)\<close> of two unbounded integers; a raised
  Python exception is a value of \<open>py_error\<close>; \<open>remove_first\<close> is Python's
  \<^verbatim>\<open>list.remove\<close> with the element type's own \<^verbatim>\<open>__eq__\<close>, and \<open>py_index\<close> is list
  indexing with negative indices counted from the end. The abstract neighbourhood
  \<open>board_neighbours\<close> is the set of in-bounds cells adjacent to a cell, against
  which the iterations of the code are proved correct. The collection \<open>sound_step\<close>
  gathers the lemmas saying that one step of \<^verbatim>\<open>add_knowledge\<close> keeps the knowledge
  base sound.
\<close>

named_theorems sound_step "steps of the inference engine that keep the knowledge sound"

type_synonym cell = "int \<times> int"

datatype py_error = ValueError | KeyError | AttributeError | ZeroDivisionError | IndexError

subsection \<open>Python lists\<close>

text \<open>\<^verbatim>\<open>xs.remove(x)\<close>: drop the first element that compares equal to \<open>x\<close>
  under the class's \<^verbatim>\<open>__eq__\<close> (the parameter \<open>eq\<close>). The callers of this
  development only remove an element of the list, so the \<^verbatim>\<open>ValueError\<close> of an
  absent element never arises (\<open>remove_first_length\<close>).\<close>

fun remove_first :: "('a \<Rightarrow> 'a \<Rightarrow> bool) \<Rightarrow> 'a \<Rightarrow> 'a list \<Rightarrow> 'a list" where
  "remove_first eq x [] = []"
| "remove_first eq x (y # ys) = (if eq y x then ys else y # remove_first eq x ys)"

text \<open>\<^verbatim>\<open>xs[i]\<close> on a Python list.\<close>

definition py_index :: "'a list \<Rightarrow> int \<Rightarrow> py_error + 'a" where
  "py_index xs i =
     (let n = int (length xs); k = (if i < 0 then n + i else i)
      in if 0 \<le> k \<and> k < n then Inr (xs ! nat k) else Inl IndexError)"

subsection \<open>The board's neighbourhood relation\<close>

text \<open>The cells within one row and one column of \<open>c\<close>, inside a board of
  \<open>h\<close> rows and \<open>w\<close> columns, not \<open>c\<close> itself.\<close>

definition board_neighbours :: "int \<Rightarrow> int \<Rightarrow> cell \<Rightarrow> cell set" where
  "board_neighbours h w c =
     {(i, j). \<bar>i - fst c\<bar> \<le> 1 \<and> \<bar>j - snd c\<bar> \<le> 1 \<and> (i, j) \<noteq> c
              \<and> 0 \<le> i \<and> i < h \<and> 0 \<le> j \<and> j < w}"

text \<open>The cells of a board of \<open>h\<close> rows and \<open>w\<close> columns.\<close>

definition grid :: "int \<Rightarrow> int \<Rightarrow> cell set" where
  "grid h w = {(i, j). 0 \<le> i \<and> i < h \<and> 0 \<le> j \<and> j < w}"

subsection \<open>Lemmas on lists\<close>

lemma remove_first_length:
  "(\<exists>y\<in>set xs. eq y x) \<Longrightarrow> Suc (length (remove_first eq x xs)) = length xs"
  by (induction xs) auto

lemma remove_first_length_le: "length (remove_first eq x xs) \<le> length xs"
  by (induction xs) auto

lemma set_remove_first: "set (remove_first eq x xs) \<subseteq> set xs"
  by (induction xs) auto

lemma filter_remove_first:
  "(\<And>y. eq y x \<Longrightarrow> \<not> P y) \<Longrightarrow> filter P (remove_first eq x xs) = filter P xs"
  by (induction xs) auto

lemma distinct_pairs_comprehension:
  "distinct xs \<Longrightarrow> distinct ys \<Longrightarrow> distinct [(i, j). i \<leftarrow> xs, j \<leftarrow> ys, P i j]"
proof (induction xs)
  case Nil
  then show ?case by simp
next
  case (Cons x xs)
  have "distinct [(x, j). j \<leftarrow> ys, P x j]"
    using Cons.prems(2) by (induction ys) auto
  moreover have "set [(x, j). j \<leftarrow> ys, P x j] \<inter> set [(i, j). i \<leftarrow> xs, j \<leftarrow> ys, P i j] = {}"
    using Cons.prems(1) by auto
  ultimately show ?case using Cons by simp
qed

subsection \<open>Python indexing\<close>

text \<open>An index in \<open>[-n, n)\<close> reads the element at the index modulo \<open>n\<close>;
  every other index raises.\<close>

lemma neg_mod_eq: "- n \<le> i \<Longrightarrow> i < 0 \<Longrightarrow> i mod n = n + (i::int)"
proof -
  assume a: "- n \<le> i" "i < 0"
  then have "0 \<le> n + i" "n + i < n" by simp_all
  then have "(n + i) mod n = n + i" by (rule mod_pos_pos_trivial)
  then show ?thesis by simp
qed

lemma py_index_eq:
  "py_index xs i =
     (if - int (length xs) \<le> i \<and> i < int (length xs) then Inr (xs ! nat (i mod int (length xs)))
      else Inl IndexError)"
proof (cases "i < 0")
  case True
  then show ?thesis by (auto simp: py_index_def Let_def neg_mod_eq)
next
  case False
  then show ?thesis by (auto simp: py_index_def Let_def mod_pos_pos_trivial)
qed

lemma int_nat_bounds: "(- int (nat h) \<le> i \<and> i < int (nat h)) \<longleftrightarrow> (- h \<le> i \<and> i < (h::int))"
  by (cases "0 \<le> h") auto

subsection \<open>Lemmas on finite sets and counts\<close>

lemma grid_eq: "grid h w = {0..<h} \<times> {0..<w}"
  by (auto simp: grid_def)

lemma finite_grid [simp]: "finite (grid h w)"
  by (simp add: grid_eq)

lemma card_grid: "card (grid h w) = nat h * nat w"
  by (simp add: grid_eq card_cartesian_product)


lemma finite_board_neighbours [simp]: "finite (board_neighbours h w c)"
proof -
  have "board_neighbours h w c \<subseteq> {fst c - 1..fst c + 1} \<times> {snd c - 1..snd c + 1}"
    by (auto simp: board_neighbours_def)
  then show ?thesis by (rule finite_subset) simp
qed

text \<open>Counting the mines of a difference of two nested cell sets.\<close>

lemma card_Diff_Int_subset:
  assumes "A \<subseteq> B" "finite B"
  shows "card ((B - A) \<inter> M) = card (B \<inter> M) - card (A \<inter> M)"
proof -
  have "(B - A) \<inter> M = (B \<inter> M) - (A \<inter> M)" by blast
  moreover have "A \<inter> M \<subseteq> B \<inter> M" using assms(1) by blast
  moreover have "finite (A \<inter> M)" using assms by (meson finite_Int finite_subset)
  ultimately show ?thesis by (simp add: card_Diff_subset)
qed

lemma card_Int_mono:
  "A \<subseteq> B \<Longrightarrow> finite B \<Longrightarrow> card (A \<inter> M) \<le> card (B \<inter> M)"
  by (rule card_mono) auto

text \<open>A finite set with as many mines as cells is all mines.\<close>

lemma card_Int_eq_subset:
  "finite A \<Longrightarrow> card (A \<inter> M) = card A \<Longrightarrow> A \<subseteq> M"
  by (metis Int_lower1 card_subset_eq inf.orderI)

lemma card_Int_zero_disjoint:
  "finite A \<Longrightarrow> card (A \<inter> M) = 0 \<Longrightarrow> A \<inter> M = {}"
  by simp

lemma card_Int_Diff_disjoint:
  "X \<inter> M = {} \<Longrightarrow> (A - X) \<inter> M = A \<inter> M"
  by blast

end
