(* ===== verification/Game.thy ===== *)
theory Game
  imports Prelude
begin

text \<open>
  The board class \<^verbatim>\<open>Minesweeper\<close> of \<^verbatim>\<open>src/minesweeper.py\<close> (lines 8--87):
  the record \<open>game\<close> holds its attributes, the grid \<^verbatim>\<open>self.board\<close> as a list of
  rows of booleans beside the set \<^verbatim>\<open>self.mines\<close>. The constructor places the
  mines with a loop that draws random coordinates until the set has the requested
  size; it is the relation \<open>place_mines\<close>, one rule per way through the loop
  body, since the draws are random and the loop need not end. \<open>board_ok\<close> says
  that the grid has the board's dimensions and that its \<open>True\<close> entries are
  exactly the mines.
\<close>

record game =
  g_height :: int
  g_width :: int
  g_mines :: "cell set"
  board :: "bool list list"
  mines_found :: "cell set"

text \<open>Lines 21--26: \<open>height\<close> rows of \<open>width\<close> \<open>False\<close> entries
  (\<^verbatim>\<open>range\<close> of a negative bound is empty).\<close>

definition empty_board :: "int \<Rightarrow> int \<Rightarrow> bool list list" where
  "empty_board h w = map (\<lambda>i. map (\<lambda>j. False) [0..<nat w]) [0..<nat h]"

text \<open>Lines 29--34: while the set of mines does not have \<open>k\<close> elements, draw
  \<open>(i, j)\<close> in range; a cell that is not yet a mine becomes one.\<close>

inductive place_mines :: "int \<Rightarrow> game \<Rightarrow> game \<Rightarrow> bool" for k where
  place_done: "int (card (g_mines g)) = k \<Longrightarrow> place_mines k g g"
| place_again: "int (card (g_mines g)) \<noteq> k \<Longrightarrow> 0 \<le> i \<Longrightarrow> i < g_height g \<Longrightarrow> 0 \<le> j \<Longrightarrow>
     j < g_width g \<Longrightarrow> board g ! nat i ! nat j \<Longrightarrow> place_mines k g g' \<Longrightarrow> place_mines k g g'"
| place_new: "int (card (g_mines g)) \<noteq> k \<Longrightarrow> 0 \<le> i \<Longrightarrow> i < g_height g \<Longrightarrow> 0 \<le> j \<Longrightarrow>
     j < g_width g \<Longrightarrow> \<not> board g ! nat i ! nat j \<Longrightarrow>
     place_mines k (g\<lparr>g_mines := insert (i, j) (g_mines g),
                      board := (board g)[nat i := (board g ! nat i)[nat j := True] ]\<rparr>) g' \<Longrightarrow>
     place_mines k g g'"

text \<open>\<^verbatim>\<open>Minesweeper.__init__\<close> (lines 13--37).\<close>

definition minesweeper_init :: "int \<Rightarrow> int \<Rightarrow> int \<Rightarrow> game \<Rightarrow> bool" where
  "minesweeper_init h w k g \<longleftrightarrow>
     place_mines k \<lparr>g_height = h, g_width = w, g_mines = {}, board = empty_board h w,
                    mines_found = {}\<rparr> g"

text \<open>\<^verbatim>\<open>is_mine\<close> (lines 54--56): Python indexing, negative indices included.\<close>

definition is_mine :: "game \<Rightarrow> cell \<Rightarrow> py_error + bool" where
  "is_mine g c = (case py_index (board g) (fst c) of Inl e \<Rightarrow> Inl e | Inr row \<Rightarrow> py_index row (snd c))"

text \<open>\<^verbatim>\<open>nearby_mines\<close> (lines 58--81): the double loop counts the in-bounds
  mines of the 3 by 3 square around the cell, skipping the cell itself.\<close>

definition nearby_mines :: "game \<Rightarrow> cell \<Rightarrow> int" where
  "nearby_mines g c =
     int (length [(i, j). i \<leftarrow> [fst c - 1..fst c + 1], j \<leftarrow> [snd c - 1..snd c + 1],
                  (i, j) \<noteq> c \<and> 0 \<le> i \<and> i < g_height g \<and> 0 \<le> j \<and> j < g_width g
                  \<and> board g ! nat i ! nat j])"

text \<open>\<^verbatim>\<open>won\<close> (lines 83--87).\<close>

definition won :: "game \<Rightarrow> bool" where
  "won g \<longleftrightarrow> mines_found g = g_mines g"

definition board_ok :: "game \<Rightarrow> bool" where
  "board_ok g \<longleftrightarrow>
     length (board g) = nat (g_height g) \<and> list_all (\<lambda>row. length row = nat (g_width g)) (board g)
     \<and> g_mines g = {(i, j). (i, j) \<in> grid (g_height g) (g_width g) \<and> board g ! nat i ! nat j}"

subsection \<open>Counting neighbours\<close>

lemma board_ok_mine_iff:
  "board_ok g \<Longrightarrow> (i, j) \<in> grid (g_height g) (g_width g) \<Longrightarrow>
   board g ! nat i ! nat j \<longleftrightarrow> (i, j) \<in> g_mines g"
  by (simp add: board_ok_def)

lemma board_ok_mines_grid: "board_ok g \<Longrightarrow> g_mines g \<subseteq> grid (g_height g) (g_width g)"
  by (auto simp: board_ok_def)

lemma nearby_mines_card:
  assumes ok: "board_ok g"
  shows "nearby_mines g c = int (card (board_neighbours (g_height g) (g_width g) c \<inter> g_mines g))"
proof -
  let ?xs = "[(i, j). i \<leftarrow> [fst c - 1..fst c + 1], j \<leftarrow> [snd c - 1..snd c + 1],
                  (i, j) \<noteq> c \<and> 0 \<le> i \<and> i < g_height g \<and> 0 \<le> j \<and> j < g_width g
                  \<and> board g ! nat i ! nat j]"
  have "distinct ?xs" by (rule distinct_pairs_comprehension) simp_all
  then have "card (set ?xs) = length ?xs" by (rule distinct_card)
  moreover have "set ?xs = board_neighbours (g_height g) (g_width g) c \<inter> g_mines g"
    using board_ok_mine_iff [OF ok] board_ok_mines_grid [OF ok]
    by (auto simp: board_neighbours_def grid_def abs_le_iff)
  ultimately show ?thesis unfolding nearby_mines_def by metis
qed

text \<open>C11: the double loop of \<^verbatim>\<open>nearby_mines\<close> counts exactly the mines among
  the in-bounds neighbours of the cell.\<close>

theorem nearby_mines_eq:
  assumes ok: "board_ok g"
  shows "nearby_mines g c = int (card (board_neighbours (g_height g) (g_width g) c \<inter> g_mines g))"
  using assms by (rule nearby_mines_card)

text \<open>\<open>board_ok\<close> computed with the iterations of \<^verbatim>\<open>__init__\<close>.\<close>

lemma board_ok_code:
  "board_ok g \<longleftrightarrow>
     length (board g) = nat (g_height g) \<and> list_all (\<lambda>row. length row = nat (g_width g)) (board g)
     \<and> g_mines g = set [(i, j). i \<leftarrow> [0..g_height g - 1], j \<leftarrow> [0..g_width g - 1], board g ! nat i ! nat j]"
proof -
  have "{(i, j). (i, j) \<in> grid (g_height g) (g_width g) \<and> board g ! nat i ! nat j}
        = set [(i, j). i \<leftarrow> [0..g_height g - 1], j \<leftarrow> [0..g_width g - 1], board g ! nat i ! nat j]"
    by (auto simp: grid_def)
  then show ?thesis by (simp add: board_ok_def)
qed

text \<open>In range, \<^verbatim>\<open>is_mine\<close> reads the mine set.\<close>

lemma is_mine_grid:
  assumes "board_ok g" "c \<in> grid (g_height g) (g_width g)"
  shows "is_mine g c = Inr (c \<in> g_mines g)"
proof -
  obtain i j where c: "c = (i, j)" by (cases c)
  from assms(1) have "length (board g) = nat (g_height g)"
    and "\<forall>row\<in>set (board g). length row = nat (g_width g)"
    by (simp_all add: board_ok_def list_all_iff)
  with assms c have "length (board g ! nat i) = nat (g_width g)"
    by (auto simp: grid_def)
  with assms c board_ok_mine_iff [OF assms(1), of i j] \<open>length (board g) = nat (g_height g)\<close>
  show ?thesis by (auto simp: is_mine_def py_index_def grid_def)
qed

subsection \<open>Placing the mines\<close>

lemma board_ok_finite: "board_ok g \<Longrightarrow> finite (g_mines g)"
  by (rule finite_subset [OF board_ok_mines_grid finite_grid])

lemma board_ok_set_mine:
  assumes ok: "board_ok g" and ij: "(i, j) \<in> grid (g_height g) (g_width g)"
  shows "board_ok (g\<lparr>g_mines := insert (i, j) (g_mines g),
                      board := (board g)[nat i := (board g ! nat i)[nat j := True] ]\<rparr>)"
proof -
  let ?b = "(board g)[nat i := (board g ! nat i)[nat j := True] ]"
  from ok have len: "length (board g) = nat (g_height g)"
    and rows: "\<forall>row\<in>set (board g). length row = nat (g_width g)"
    by (simp_all add: board_ok_def list_all_iff)
  have ilt: "nat i < length (board g)" using ij len by (auto simp: grid_def)
  have rows': "\<forall>row\<in>set ?b. length row = nat (g_width g)"
    using rows ilt by (auto dest!: set_update_subset_insert [THEN subsetD])
  have "?b ! nat x ! nat y \<longleftrightarrow> (x, y) = (i, j) \<or> board g ! nat x ! nat y"
    if "(x, y) \<in> grid (g_height g) (g_width g)" for x y
  proof -
    have "length (board g ! nat i) = nat (g_width g)" using rows ilt by simp
    then show ?thesis using that ij ilt len by (auto simp: grid_def nth_list_update eq_nat_nat_iff split: if_splits)
  qed
  with ok ij have "insert (i, j) (g_mines g) = {(x, y). (x, y) \<in> grid (g_height g) (g_width g) \<and> ?b ! nat x ! nat y}"
    by (auto simp: board_ok_def)
  with len rows' show ?thesis by (simp add: board_ok_def list_all_iff)
qed

lemma place_mines_ok:
  "place_mines k g g' \<Longrightarrow> board_ok g \<Longrightarrow>
   board_ok g' \<and> int (card (g_mines g')) = k \<and> g_height g' = g_height g \<and> g_width g' = g_width g"
proof (induction rule: place_mines.induct)
  case (place_done g)
  then show ?case by simp
next
  case (place_again g i j g')
  then show ?case by simp
next
  case (place_new g i j g')
  then have "(i, j) \<in> grid (g_height g) (g_width g)" by (simp add: grid_def)
  with place_new.prems have "board_ok (g\<lparr>g_mines := insert (i, j) (g_mines g),
                      board := (board g)[nat i := (board g ! nat i)[nat j := True] ]\<rparr>)"
    by (rule board_ok_set_mine)
  with place_new.IH show ?case by simp
qed

lemma place_mines_exists:
  "board_ok g \<Longrightarrow> int (card (g_mines g)) \<le> k \<Longrightarrow> k \<le> int (card (grid (g_height g) (g_width g))) \<Longrightarrow>
   \<exists>g'. place_mines k g g'"
proof (induction "nat (k - int (card (g_mines g)))" arbitrary: g)
  case 0
  then have "int (card (g_mines g)) = k" by simp
  then show ?case by (blast intro: place_done)
next
  case (Suc n)
  let ?G = "grid (g_height g) (g_width g)"
  have sub: "g_mines g \<subseteq> ?G" using Suc.prems(1) by (rule board_ok_mines_grid)
  have lt: "card (g_mines g) < card ?G" using Suc.hyps(2) Suc.prems(3) by linarith
  have "?G - g_mines g \<noteq> {}"
  proof
    assume "?G - g_mines g = {}"
    then have "?G \<subseteq> g_mines g" by blast
    with board_ok_finite [OF Suc.prems(1)] have "card ?G \<le> card (g_mines g)" by (rule card_mono)
    with lt show False by simp
  qed
  then obtain i j where ij: "(i, j) \<in> ?G" "(i, j) \<notin> g_mines g" by auto
  let ?g = "g\<lparr>g_mines := insert (i, j) (g_mines g),
                      board := (board g)[nat i := (board g ! nat i)[nat j := True] ]\<rparr>"
  have ok: "board_ok ?g" using Suc.prems(1) ij(1) by (rule board_ok_set_mine)
  have card: "card (g_mines ?g) = Suc (card (g_mines g))"
    using ij(2) board_ok_finite [OF Suc.prems(1)] by simp
  have "\<exists>g'. place_mines k ?g g'"
    using Suc.hyps(1) [of ?g] Suc.hyps(2) Suc.prems ok card by simp
  moreover have "\<not> board g ! nat i ! nat j"
    using board_ok_mine_iff [OF Suc.prems(1) ij(1)] ij(2) by simp
  moreover have "int (card (g_mines g)) \<noteq> k" using Suc.hyps(2) by simp
  ultimately show ?case using ij(1) by (auto simp: grid_def intro: place_new)
qed

lemma empty_board_ok:
  "board_ok \<lparr>g_height = h, g_width = w, g_mines = {}, board = empty_board h w, mines_found = F\<rparr>"
  by (auto simp: board_ok_def empty_board_def list_all_iff grid_def)

text \<open>C12: the mine-placing loop of the constructor can end, with a board of
  \<open>h\<close> rows and \<open>w\<close> columns, exactly when the requested number of mines is
  between 0 and the number of cells; otherwise every run goes on forever (or
  \<^verbatim>\<open>random.randrange\<close> raises on an empty range).\<close>

theorem minesweeper_init_exists:
  "(\<exists>g. minesweeper_init h w k g) \<longleftrightarrow> 0 \<le> k \<and> k \<le> int (nat h * nat w)"
proof
  assume "\<exists>g. minesweeper_init h w k g"
  then obtain g where "minesweeper_init h w k g" by blast
  then have p: "place_mines k \<lparr>g_height = h, g_width = w, g_mines = {}, board = empty_board h w,
                    mines_found = {}\<rparr> g" by (simp add: minesweeper_init_def)
  from place_mines_ok [OF p empty_board_ok]
  have "board_ok g" "int (card (g_mines g)) = k" "g_height g = h" "g_width g = w" by simp_all
  moreover from this have "card (g_mines g) \<le> nat h * nat w"
    using board_ok_mines_grid [of g] card_mono [OF finite_grid] by (simp add: card_grid)
  ultimately show "0 \<le> k \<and> k \<le> int (nat h * nat w)" by (metis of_nat_0_le_iff of_nat_le_iff)
next
  assume "0 \<le> k \<and> k \<le> int (nat h * nat w)"
  then show "\<exists>g. minesweeper_init h w k g"
    unfolding minesweeper_init_def
    by (intro place_mines_exists empty_board_ok) (simp_all add: card_grid)
qed

text \<open>C18: every board the constructor can build is well formed, has the
  requested dimensions and exactly \<open>k\<close> mines, all inside the board.\<close>

theorem minesweeper_init_ok:
  assumes "minesweeper_init h w k g"
  shows "board_ok g \<and> g_height g = h \<and> g_width g = w \<and> int (card (g_mines g)) = k
         \<and> g_mines g \<subseteq> grid h w"
proof -
  from assms have "place_mines k \<lparr>g_height = h, g_width = w, g_mines = {}, board = empty_board h w,
                    mines_found = {}\<rparr> g" by (simp add: minesweeper_init_def)
  from place_mines_ok [OF this empty_board_ok] board_ok_mines_grid
  show ?thesis by auto
qed

subsection \<open>Reading the board\<close>

text \<open>C28: what the constructor writes, \<^verbatim>\<open>is_mine\<close> reads back: on every
  board \<^verbatim>\<open>Minesweeper.__init__\<close> can build, \<^verbatim>\<open>is_mine\<close> of a cell of the board
  returns whether the cell is in \<^verbatim>\<open>self.mines\<close> (lines 33--34 keep the grid
  and the set in step).\<close>

theorem is_mine_roundtrip:
  assumes "minesweeper_init h w k g" "c \<in> grid h w"
  shows "is_mine g c = Inr (c \<in> g_mines g)"
proof -
  from assms(1) have "place_mines k \<lparr>g_height = h, g_width = w, g_mines = {}, board = empty_board h w,
                    mines_found = {}\<rparr> g" by (simp add: minesweeper_init_def)
  from place_mines_ok [OF this empty_board_ok]
  have "board_ok g" "g_height g = h" "g_width g = w" by simp_all
  with assms(2) show ?thesis by (simp add: is_mine_grid)
qed

text \<open>C29: \<^verbatim>\<open>is_mine\<close> indexes the grid the Python way: on a well-formed
  board, a row index in \<open>[-height, height)\<close> and a column index in
  \<open>[-width, width)\<close> read the cell at the indices modulo the dimensions
  (negative indices count from the end), and every other cell raises
  \<^verbatim>\<open>IndexError\<close>.\<close>

theorem is_mine_index:
  assumes ok: "board_ok g"
  shows "is_mine g (i, j) =
    (if - g_height g \<le> i \<and> i < g_height g \<and> - g_width g \<le> j \<and> j < g_width g
     then Inr ((i mod g_height g, j mod g_width g) \<in> g_mines g) else Inl IndexError)"
proof -
  let ?H = "g_height g" and ?W = "g_width g"
  from ok have len: "length (board g) = nat ?H" and rows: "\<forall>row\<in>set (board g). length row = nat ?W"
    by (simp_all add: board_ok_def list_all_iff)
  show ?thesis
  proof (cases "- ?H \<le> i \<and> i < ?H")
    case False
    then have "py_index (board g) i = Inl IndexError"
      unfolding py_index_eq len int_nat_bounds by simp
    with False show ?thesis by (auto simp: is_mine_def)
  next
    case i: True
    then have H: "0 < ?H" by simp
    have im: "0 \<le> i mod ?H" "i mod ?H < ?H" using H by simp_all
    then have "nat (i mod ?H) < length (board g)" using len by simp
    then have row: "length (board g ! nat (i mod ?H)) = nat ?W" using rows by simp
    have r: "py_index (board g) i = Inr (board g ! nat (i mod ?H))"
      using i unfolding py_index_eq len int_nat_bounds by simp
    show ?thesis
    proof (cases "- ?W \<le> j \<and> j < ?W")
      case False
      then have "py_index (board g ! nat (i mod ?H)) j = Inl IndexError"
        unfolding py_index_eq row int_nat_bounds by simp
      with False show ?thesis by (simp add: is_mine_def r)
    next
      case j: True
      then have W: "0 < ?W" by simp
      have "(i mod ?H, j mod ?W) \<in> grid ?H ?W" using im W by (simp add: grid_def)
      moreover have "py_index (board g ! nat (i mod ?H)) j = Inr (board g ! nat (i mod ?H) ! nat (j mod ?W))"
        using j unfolding py_index_eq row int_nat_bounds by simp
      ultimately show ?thesis using board_ok_mine_iff [OF ok] i j by (simp add: is_mine_def r)
    qed
  qed
qed
subsection \<open>Witnesses\<close>

text \<open>A board the constructor can build: one mine, in the middle of a row of three.\<close>

lemma minesweeper_init_row3_mid:
  "minesweeper_init 1 3 1 \<lparr>g_height = 1, g_width = 3, g_mines = {(0, 1)}, board = [ [False, True, False] ], mines_found = {}\<rparr>"
proof -
  let ?g = "\<lparr>g_height = 1, g_width = 3, g_mines = {(0, 1)}, board = [ [False, True, False] ], mines_found = {}\<rparr>"
  have base: "place_mines 1 ?g ?g" by (rule place_done) simp
  have eb: "empty_board 1 3 = [ [False, False, False] ]" by code_simp
  have "place_mines 1 \<lparr>g_height = 1, g_width = 3, g_mines = {}, board = empty_board 1 3, mines_found = {}\<rparr> ?g"
    by (rule place_new [where i = 0 and j = 1]) (simp_all add: eb base)
  then show ?thesis by (simp add: minesweeper_init_def)
qed


theorem nearby_mines_eq_witness:
  "board_ok \<lparr>g_height = 1, g_width = 3, g_mines = {(0, 0)}, board = [ [True, False, False] ], mines_found = {}\<rparr>
   \<and> nearby_mines \<lparr>g_height = 1, g_width = 3, g_mines = {(0, 0)}, board = [ [True, False, False] ], mines_found = {}\<rparr> (0, 1)
     = int (card (board_neighbours 1 3 (0, 1) \<inter> {(0, 0)}))"
proof -
  have ok: "board_ok \<lparr>g_height = 1, g_width = 3, g_mines = {(0, 0)}, board = [ [True, False, False] ], mines_found = {}\<rparr>"
    unfolding board_ok_code by code_simp
  show ?thesis using ok nearby_mines_eq [OF ok, of "(0, 1)"] by simp
qed

theorem minesweeper_init_ok_witness:
  "minesweeper_init 1 3 1 \<lparr>g_height = 1, g_width = 3, g_mines = {(0, 1)}, board = [ [False, True, False] ], mines_found = {}\<rparr>
   \<and> g_mines \<lparr>g_height = 1, g_width = 3, g_mines = {(0, 1)}, board = [ [False, True, False] ], mines_found = {}\<rparr>
       \<subseteq> grid 1 3"
  using minesweeper_init_row3_mid minesweeper_init_ok [OF minesweeper_init_row3_mid] by blast

theorem is_mine_roundtrip_witness:
  "minesweeper_init 1 3 1 \<lparr>g_height = 1, g_width = 3, g_mines = {(0, 1)}, board = [ [False, True, False] ], mines_found = {}\<rparr>
   \<and> (0, 1) \<in> grid 1 3
   \<and> is_mine \<lparr>g_height = 1, g_width = 3, g_mines = {(0, 1)}, board = [ [False, True, False] ], mines_found = {}\<rparr> (0, 1) = Inr True"
proof -
  have c: "(0, 1) \<in> grid 1 3" by (simp add: grid_def)
  from is_mine_roundtrip [OF minesweeper_init_row3_mid c] minesweeper_init_row3_mid c
  show ?thesis by simp
qed

theorem is_mine_index_witness:
  "board_ok \<lparr>g_height = 1, g_width = 3, g_mines = {(0, 1)}, board = [ [False, True, False] ], mines_found = {}\<rparr>
   \<and> is_mine \<lparr>g_height = 1, g_width = 3, g_mines = {(0, 1)}, board = [ [False, True, False] ], mines_found = {}\<rparr> (0, -2) = Inr True
   \<and> is_mine \<lparr>g_height = 1, g_width = 3, g_mines = {(0, 1)}, board = [ [False, True, False] ], mines_found = {}\<rparr> (1, 0) = Inl IndexError"
proof -
  have ok: "board_ok \<lparr>g_height = 1, g_width = 3, g_mines = {(0, 1)}, board = [ [False, True, False] ], mines_found = {}\<rparr>"
    unfolding board_ok_code by code_simp
  from ok is_mine_index [OF ok, of 0 "-2"] is_mine_index [OF ok, of 1 0] show ?thesis by simp
qed

end
