(* ===== verification/Sentence.thy ===== *)
theory Sentence
  imports Prelude
begin

text \<open>
  The class \<^verbatim>\<open>Sentence\<close> of \<^verbatim>\<open>src/minesweeper.py\<close> (lines 90--141): a set of
  cells, the number of mines among them, and the two sets \<^verbatim>\<open>mines\<close> and
  \<^verbatim>\<open>safes\<close> in which the object records what its \<^verbatim>\<open>mark_mine\<close> and
  \<^verbatim>\<open>mark_safe\<close> have concluded. Python equality (\<^verbatim>\<open>__eq__\<close>) compares the
  cells and the count only, which \<open>sentence_eq\<close> models; HOL equality of the
  record also compares the two recorded sets, so every place where the code
  compares sentences uses \<open>sentence_eq\<close>.

  A sentence is \<^emph>\<open>true\<close> of a mine set \<open>M\<close> when exactly \<open>count\<close> of its
  finitely many cells are in \<open>M\<close>; it is \<^emph>\<open>sound\<close> when it is true and its
  recorded mines and safes are right about \<open>M\<close>.
\<close>

record sentence =
  cells :: "cell set"
  count :: int
  s_mines :: "cell set"
  s_safes :: "cell set"

text \<open>The constructor \<^verbatim>\<open>Sentence(cells, count)\<close>.\<close>

definition Sentence :: "cell set \<Rightarrow> int \<Rightarrow> sentence" where
  "Sentence cs n = \<lparr>cells = cs, count = n, s_mines = {}, s_safes = {}\<rparr>"

definition sentence_eq :: "sentence \<Rightarrow> sentence \<Rightarrow> bool" where
  "sentence_eq s t \<longleftrightarrow> cells s = cells t \<and> count s = count t"

text \<open>\<^verbatim>\<open>known_mines\<close> and \<^verbatim>\<open>known_safes\<close> (lines 109--119) return the recorded
  sets; their docstrings promise the cells \<^emph>\<open>of \<^verbatim>\<open>self.cells\<close>\<close> known to be
  mines or safe.\<close>

definition known_mines :: "sentence \<Rightarrow> cell set" where
  "known_mines s = s_mines s"

definition known_safes :: "sentence \<Rightarrow> cell set" where
  "known_safes s = s_safes s"

definition sentence_mark_mine :: "cell \<Rightarrow> sentence \<Rightarrow> sentence" where
  "sentence_mark_mine c s =
     (if int (card (cells s)) = count s then s\<lparr>s_mines := insert c (s_mines s)\<rparr> else s)"

definition sentence_mark_safe :: "cell \<Rightarrow> sentence \<Rightarrow> sentence" where
  "sentence_mark_safe c s =
     (if count s = 0 then s\<lparr>s_safes := insert c (s_safes s)\<rparr> else s)"

text \<open>
  Lines 277--280 of \<^verbatim>\<open>add_knowledge\<close> run \<^verbatim>\<open>mark_mine\<close> and then \<^verbatim>\<open>mark_safe\<close>
  on every cell of a statement, in the iteration order of the Python set. The
  result does not depend on that order (proved below for every order), so the
  statement's update is written in closed form.
\<close>

definition mark_statement :: "sentence \<Rightarrow> sentence" where
  "mark_statement s =
     s\<lparr>s_mines := s_mines s \<union> (if int (card (cells s)) = count s then cells s else {}),
       s_safes := s_safes s \<union> (if count s = 0 then cells s else {})\<rparr>"

definition mark_loop :: "cell list \<Rightarrow> sentence \<Rightarrow> sentence" where
  "mark_loop es s = fold (\<lambda>e t. sentence_mark_safe e (sentence_mark_mine e t)) es s"

subsection \<open>Meaning of a sentence\<close>

definition sentence_true :: "cell set \<Rightarrow> sentence \<Rightarrow> bool" where
  "sentence_true M s \<longleftrightarrow> finite (cells s) \<and> int (card (cells s \<inter> M)) = count s"

definition sentence_sound :: "cell set \<Rightarrow> sentence \<Rightarrow> bool" where
  "sentence_sound M s \<longleftrightarrow> sentence_true M s \<and> s_mines s \<subseteq> M \<and> s_safes s \<inter> M = {}"

subsection \<open>Lemmas\<close>

lemma sentence_mark_cells [simp]:
  "cells (sentence_mark_mine c s) = cells s" "count (sentence_mark_mine c s) = count s"
  "cells (sentence_mark_safe c s) = cells s" "count (sentence_mark_safe c s) = count s"
  by (simp_all add: sentence_mark_mine_def sentence_mark_safe_def)

lemma mark_statement_cells [simp]:
  "cells (mark_statement s) = cells s" "count (mark_statement s) = count s"
  by (simp_all add: mark_statement_def)

lemma Sentence_sel [simp]:
  "cells (Sentence cs n) = cs" "count (Sentence cs n) = n"
  "s_mines (Sentence cs n) = {}" "s_safes (Sentence cs n) = {}"
  by (simp_all add: Sentence_def)

lemma mark_step:
  "sentence_mark_safe e (sentence_mark_mine e s) =
     s\<lparr>s_mines := s_mines s \<union> (if int (card (cells s)) = count s then {e} else {}),
       s_safes := s_safes s \<union> (if count s = 0 then {e} else {})\<rparr>"
  by (simp add: sentence_mark_mine_def sentence_mark_safe_def)

lemma mark_loop_prefix:
  "mark_loop es s =
     s\<lparr>s_mines := s_mines s \<union> (if int (card (cells s)) = count s then set es else {}),
       s_safes := s_safes s \<union> (if count s = 0 then set es else {})\<rparr>"
proof (induction es arbitrary: s)
  case Nil
  then show ?case by (simp add: mark_loop_def)
next
  case (Cons e es)
  have "mark_loop (e # es) s = mark_loop es (sentence_mark_safe e (sentence_mark_mine e s))"
    by (simp add: mark_loop_def)
  also have "\<dots> = mark_loop es (s\<lparr>s_mines := s_mines s \<union> (if int (card (cells s)) = count s then {e} else {}),
       s_safes := s_safes s \<union> (if count s = 0 then {e} else {})\<rparr>)"
    by (simp only: mark_step)
  also have "\<dots> = s\<lparr>s_mines := s_mines s \<union> (if int (card (cells s)) = count s then set (e # es) else {}),
       s_safes := s_safes s \<union> (if count s = 0 then set (e # es) else {})\<rparr>"
    unfolding Cons.IH by (cases "int (card (cells s)) = count s"; cases "count s = 0") auto
  finally show ?case .
qed

text \<open>Whatever order the Python set yields its cells in, the literal loop of
  lines 277--280 computes the closed form \<open>mark_statement\<close> that
  \<open>add_knowledge\<close> is written with.\<close>

lemma mark_loop_eq:
  "set es = cells s \<Longrightarrow> mark_loop es s = mark_statement s"
  by (simp add: mark_loop_prefix mark_statement_def)

text \<open>The count of a true sentence lies between 0 and its number of cells.\<close>

lemma sentence_true_count_bounds:
  "sentence_true M s \<Longrightarrow> 0 \<le> count s \<and> count s \<le> int (card (cells s))"
  by (auto simp: sentence_true_def) (metis Int_lower1 card_mono of_nat_le_iff)
lemma sentence_true_all_mines:
  "sentence_true M s \<Longrightarrow> int (card (cells s)) = count s \<Longrightarrow> cells s \<subseteq> M"
  by (simp add: sentence_true_def card_Int_eq_subset)
lemma sentence_true_all_safe:
  "sentence_true M s \<Longrightarrow> count s = 0 \<Longrightarrow> cells s \<inter> M = {}"
  by (simp add: sentence_true_def card_Int_zero_disjoint)
lemma mark_statement_sound [sound_step]:
  assumes "sentence_sound M s"
  shows "sentence_sound M (mark_statement s)"
proof -
  from assms have t: "sentence_true M s" and m: "s_mines s \<subseteq> M" and f: "s_safes s \<inter> M = {}"
    by (simp_all add: sentence_sound_def)
  have "sentence_true M (mark_statement s)"
    using t by (simp add: sentence_true_def)
  moreover have "s_mines (mark_statement s) \<subseteq> M"
    using m sentence_true_all_mines [OF t] by (simp add: mark_statement_def)
  moreover have "s_safes (mark_statement s) \<inter> M = {}"
    using f sentence_true_all_safe [OF t] by (simp add: mark_statement_def Int_Un_distrib2)
  ultimately show ?thesis by (simp add: sentence_sound_def)
qed

end
