(* ===== verification/Knowledge.thy ===== *)
theory Knowledge
  imports Sentence
begin

text \<open>
  The knowledge base of \<^verbatim>\<open>MinesweeperAI\<close> (\<^verbatim>\<open>src/minesweeper.py\<close>, lines
  144--303) and its update \<^verbatim>\<open>add_knowledge\<close>. The object's attributes are the
  record \<open>ai\<close>; \<^verbatim>\<open>self.knowledge\<close> is a Python list of sentences, so it is a HOL
  list, in which order and duplicates matter. \<^verbatim>\<open>add_knowledge\<close> is the
  composition of one definition per block of the method, in the method's order:
  \<open>neighbour_cells\<close> (lines 210--219), \<open>add_if_new\<close> (222--229),
  \<open>remove_cell\<close> (236--238), \<open>remove_empty\<close> (241--243), \<open>subset_resolution\<close>
  (250--271), \<open>mark_statement\<close> on every statement (277--280),
  \<open>collect_knowledge\<close> (282--286) and the removal of moves made from
  \<^verbatim>\<open>self.safes\<close> (288--295). The only loop that is not a plain traversal is
  the deletion of empty statements while iterating over the same list; it is a
  \<^theory_text>\<open>function\<close> on the iterator's index with a measure.

  \<open>ai_sound M\<close> says that everything the AI knows is true of the mine set
  \<open>M\<close>: no move made and no cell in \<^verbatim>\<open>self.safes\<close> is a mine, every cell in
  \<^verbatim>\<open>self.mines\<close> is, and every statement is a sound sentence over cells not yet
  played. The preservation theorem of the last section proves that a truthful
  observation of a safe cell keeps it.
\<close>

record ai =
  height :: int
  width :: int
  number_of_mines :: int
  moves_made :: "cell set"
  mines :: "cell set"
  safes :: "cell set"
  knowledge :: "sentence list"
  new_sentence :: "cell set"

text \<open>\<^verbatim>\<open>MinesweeperAI.__init__\<close> (lines 149--164); the attribute
  \<^verbatim>\<open>self.new_sentence\<close> only comes into being at the first \<^verbatim>\<open>add_knowledge\<close>
  and is never read, so its initial value is immaterial.\<close>

definition ai_init :: "int \<Rightarrow> int \<Rightarrow> int \<Rightarrow> ai" where
  "ai_init h w k =
     \<lparr>height = h, width = w, number_of_mines = k, moves_made = {}, mines = {}, safes = {},
      knowledge = [], new_sentence = {}\<rparr>"

text \<open>\<^verbatim>\<open>MinesweeperAI.mark_mine\<close> and \<^verbatim>\<open>mark_safe\<close> (lines 166--182); the
  code never calls them.\<close>

definition ai_mark_mine :: "cell \<Rightarrow> ai \<Rightarrow> ai" where
  "ai_mark_mine c a =
     a\<lparr>mines := insert c (mines a), knowledge := map (sentence_mark_mine c) (knowledge a)\<rparr>"

definition ai_mark_safe :: "cell \<Rightarrow> ai \<Rightarrow> ai" where
  "ai_mark_safe c a =
     a\<lparr>safes := insert c (safes a), knowledge := map (sentence_mark_safe c) (knowledge a)\<rparr>"

subsection \<open>The blocks of \<^verbatim>\<open>add_knowledge\<close>\<close>

text \<open>Lines 210--219: the in-bounds cells of the 3 by 3 square around \<open>c\<close>
  that are not moves made (the square includes \<open>c\<close>, which line 200 has just
  made a move).\<close>

definition neighbour_cells :: "int \<Rightarrow> int \<Rightarrow> cell set \<Rightarrow> cell \<Rightarrow> cell set" where
  "neighbour_cells h w mv c =
     set [(fst c + i, snd c + j). i \<leftarrow> [-1..1], j \<leftarrow> [-1..1],
          fst c + i > -1 \<and> fst c + i < h \<and> snd c + j > -1 \<and> snd c + j < w
          \<and> (fst c + i, snd c + j) \<notin> mv]"

text \<open>Lines 222--229 (and 261--267): append a sentence unless an equal one
  (by \<^verbatim>\<open>__eq__\<close>) is already in the list.\<close>

definition add_if_new :: "sentence \<Rightarrow> sentence list \<Rightarrow> sentence list" where
  "add_if_new s kb = (if list_ex (\<lambda>t. sentence_eq s t) kb then kb else kb @ [s])"

text \<open>Lines 236--238: the revealed cell leaves every statement; its count
  is unchanged.\<close>

definition remove_cell :: "cell \<Rightarrow> sentence list \<Rightarrow> sentence list" where
  "remove_cell c kb = map (\<lambda>s. if c \<in> cells s then s\<lparr>cells := cells s - {c}\<rparr> else s) kb"

text \<open>Lines 241--243 (and 334--336): \<^verbatim>\<open>for statement in self.knowledge:
  if len(statement.cells) == 0: self.knowledge.remove(statement)\<close>. The list
  iterator holds an index \<open>i\<close>; \<^verbatim>\<open>remove\<close> deletes the first statement equal
  to the current one, which shifts the rest of the list left under the iterator.\<close>

function remove_empty :: "nat \<Rightarrow> sentence list \<Rightarrow> sentence list" where
  "remove_empty i kb =
     (if i < length kb then
        (if cells (kb ! i) = {} then remove_empty (Suc i) (remove_first sentence_eq (kb ! i) kb)
         else remove_empty (Suc i) kb)
      else kb)"
  by pat_completeness auto
termination
proof (relation "measure (\<lambda>(i, kb). length kb - i)")
  fix i :: nat and kb :: "sentence list"
  assume "i < length kb"
  then show "((Suc i, remove_first sentence_eq (kb ! i) kb), i, kb) \<in> measure (\<lambda>(i, kb). length kb - i)"
    using remove_first_length_le [of sentence_eq "kb ! i" kb] by simp
qed auto

declare remove_empty.simps [simp del]

text \<open>\<^verbatim>\<open>itertools.permutations(self.knowledge, 2)\<close>: all ordered pairs of
  two different positions, in lexicographic order of the positions, taken from
  a snapshot of the list.\<close>

definition permutations2 :: "'a list \<Rightarrow> ('a \<times> 'a) list" where
  "permutations2 xs =
     [(xs ! i, xs ! j). i \<leftarrow> [0..<length xs], j \<leftarrow> [0..<length xs], i \<noteq> j]"

text \<open>Lines 253--271, for one pair: when neither count is 0 and the first
  statement's cells are a subset of the second's, the difference with the
  difference of the counts is added, unless it is empty or already known.\<close>

definition resolve_pair :: "sentence \<times> sentence \<Rightarrow> sentence list \<Rightarrow> sentence list" where
  "resolve_pair p kb =
     (case p of (a, b) \<Rightarrow>
        if count a \<noteq> 0 \<and> count b \<noteq> 0 then
          (if cells a \<subseteq> cells b then
             (if cells b - cells a \<noteq> {}
              then add_if_new (Sentence (cells b - cells a) (count b - count a)) kb
              else kb)
           else kb)
        else kb)"

definition subset_resolution :: "sentence list \<Rightarrow> sentence list" where
  "subset_resolution kb = fold resolve_pair (permutations2 kb) kb"

text \<open>Lines 282--286: the marks of every statement join the AI's sets.\<close>

definition collect_knowledge :: "ai \<Rightarrow> ai" where
  "collect_knowledge a =
     fold (\<lambda>s b. b\<lparr>mines := mines b \<union> s_mines s, safes := safes b \<union> s_safes s\<rparr>)
       (knowledge a) a"

text \<open>The whole method (lines 184--303; the \<^verbatim>\<open>print\<close> of line 302 is output
  only).\<close>

definition add_knowledge :: "ai \<Rightarrow> cell \<Rightarrow> int \<Rightarrow> ai" where
  "add_knowledge a c n =
     (let a1 = a\<lparr>moves_made := insert c (moves_made a)\<rparr>;
          a2 = a1\<lparr>safes := insert c (safes a1)\<rparr>;
          ns = neighbour_cells (height a2) (width a2) (moves_made a2) c;
          a3 = a2\<lparr>new_sentence := ns, knowledge := add_if_new (Sentence ns n) (knowledge a2)\<rparr>;
          a4 = a3\<lparr>knowledge := remove_cell c (knowledge a3)\<rparr>;
          a5 = a4\<lparr>knowledge := remove_empty 0 (knowledge a4)\<rparr>;
          a6 = a5\<lparr>knowledge := subset_resolution (knowledge a5)\<rparr>;
          a7 = a6\<lparr>knowledge := map mark_statement (knowledge a6)\<rparr>;
          a8 = collect_knowledge a7
      in a8\<lparr>safes := safes a8 - moves_made a8\<rparr>)"

subsection \<open>Soundness of the knowledge\<close>

definition kb_sound :: "cell set \<Rightarrow> cell set \<Rightarrow> sentence list \<Rightarrow> bool" where
  "kb_sound M mv kb \<longleftrightarrow> list_all (\<lambda>s. sentence_sound M s \<and> cells s \<inter> mv = {}) kb"

definition ai_sound :: "cell set \<Rightarrow> ai \<Rightarrow> bool" where
  "ai_sound M a \<longleftrightarrow>
     moves_made a \<inter> M = {} \<and> mines a \<subseteq> M \<and> safes a \<inter> M = {}
     \<and> kb_sound M (moves_made a) (knowledge a)"

subsection \<open>Each block keeps the knowledge sound\<close>

lemma neighbour_cells_eq:
  assumes "c \<in> mv"
  shows "neighbour_cells h w mv c = board_neighbours h w c - mv"
proof (intro set_eqI iffI)
  fix p
  assume "p \<in> neighbour_cells h w mv c"
  with assms show "p \<in> board_neighbours h w c - mv"
    by (auto simp: neighbour_cells_def board_neighbours_def)
next
  fix p
  assume p: "p \<in> board_neighbours h w c - mv"
  obtain x y where xy: "p = (x, y)" by (cases p)
  let ?i = "x - fst c" and ?j = "y - snd c"
  have "?i \<in> set [-1..1]" "?j \<in> set [-1..1]"
    using p xy by (auto simp: board_neighbours_def)
  moreover have p_eq: "p = (fst c + ?i, snd c + ?j)" using xy by simp
  ultimately show "p \<in> neighbour_cells h w mv c"
    using p xy unfolding neighbour_cells_def board_neighbours_def
    apply auto
    apply (rule bexI [where x = "x - fst c"])
     apply (auto intro!: bexI [where x = "y - snd c"])
    done
qed

text \<open>The neighbourhood of a cell computed by the code's own loop.\<close>

lemma board_neighbours_code:
  "board_neighbours h w c = neighbour_cells h w {c} c"
proof -
  have "c \<notin> board_neighbours h w c" by (cases c) (simp add: board_neighbours_def)
  then show ?thesis by (simp add: neighbour_cells_eq)
qed

lemma kb_sound_Nil [simp]: "kb_sound M mv []"
  by (simp add: kb_sound_def)

lemma kb_sound_Cons [simp]:
  "kb_sound M mv (s # kb) \<longleftrightarrow> sentence_sound M s \<and> cells s \<inter> mv = {} \<and> kb_sound M mv kb"
  by (simp add: kb_sound_def)

lemma kb_sound_iff:
  "kb_sound M mv kb \<longleftrightarrow> (\<forall>s\<in>set kb. sentence_sound M s \<and> cells s \<inter> mv = {})"
  by (simp add: kb_sound_def list_all_iff)

lemma kb_sound_subset:
  "kb_sound M mv kb \<Longrightarrow> set kb' \<subseteq> set kb \<Longrightarrow> kb_sound M mv kb'"
  by (auto simp: kb_sound_iff)

lemma add_if_new_sound:
  "kb_sound M mv kb \<Longrightarrow> sentence_sound M s \<Longrightarrow> cells s \<inter> mv = {} \<Longrightarrow>
   kb_sound M mv (add_if_new s kb)"
  by (simp add: add_if_new_def kb_sound_def)

lemma remove_cell_sentence_sound:
  "sentence_sound M s \<Longrightarrow> c \<notin> M \<Longrightarrow> sentence_sound M (s\<lparr>cells := cells s - {c}\<rparr>)"
proof -
  assume s: "sentence_sound M s" and c: "c \<notin> M"
  have "(cells s - {c}) \<inter> M = cells s \<inter> M" using c by blast
  with s show ?thesis by (simp add: sentence_sound_def sentence_true_def)
qed

lemma remove_cell_sound [sound_step]:
  "kb_sound M mv kb \<Longrightarrow> c \<notin> M \<Longrightarrow> kb_sound M (insert c mv) (remove_cell c kb)"
  by (induction kb) (auto simp: remove_cell_def remove_cell_sentence_sound)

lemma set_remove_empty: "set (remove_empty i kb) \<subseteq> set kb"
proof (induction i kb rule: remove_empty.induct)
  case (1 i kb)
  show ?case
    using "1" set_remove_first [of sentence_eq "kb ! i" kb]
    by (subst remove_empty.simps) (auto split: if_splits)
qed

lemma remove_empty_sound [sound_step]:
  "kb_sound M mv kb \<Longrightarrow> kb_sound M mv (remove_empty i kb)"
  by (rule kb_sound_subset [OF _ set_remove_empty])

text \<open>The difference of two true nested sentences is true.\<close>

lemma resolvent_true:
  assumes a: "sentence_true M a" and b: "sentence_true M b" and sub: "cells a \<subseteq> cells b"
  shows "sentence_true M (Sentence (cells b - cells a) (count b - count a))"
proof -
  have fin: "finite (cells b)" using b by (simp add: sentence_true_def)
  have "card (cells a \<inter> M) \<le> card (cells b \<inter> M)" using sub fin by (rule card_Int_mono)
  then have "int (card ((cells b - cells a) \<inter> M)) = int (card (cells b \<inter> M)) - int (card (cells a \<inter> M))"
    by (simp add: card_Diff_Int_subset [OF sub fin] of_nat_diff)
  with a b fin show ?thesis by (simp add: sentence_true_def)
qed

lemma resolve_pair_sound:
  assumes "kb_sound M mv kb" "sentence_sound M a" "sentence_sound M b" "cells b \<inter> mv = {}"
  shows "kb_sound M mv (resolve_pair (a, b) kb)"
proof -
  have "sentence_sound M (Sentence (cells b - cells a) (count b - count a))"
    if "cells a \<subseteq> cells b"
    using assms(2,3) resolvent_true [OF _ _ that] by (simp add: sentence_sound_def)
  moreover have "(cells b - cells a) \<inter> mv = {}" using assms(4) by blast
  ultimately show ?thesis
    using assms(1) by (simp add: resolve_pair_def add_if_new_sound)
qed

lemma set_permutations2: "set (permutations2 xs) \<subseteq> set xs \<times> set xs"
  by (auto simp: permutations2_def)

lemma fold_resolve_pair_sound:
  "kb_sound M mv ps_kb \<Longrightarrow> set ps \<subseteq> set ps_kb \<times> set ps_kb \<Longrightarrow> kb_sound M mv kb \<Longrightarrow>
   kb_sound M mv (fold resolve_pair ps kb)"
proof (induction ps arbitrary: kb)
  case Nil
  then show ?case by simp
next
  case (Cons p ps)
  obtain a b where p: "p = (a, b)" by (cases p)
  with Cons.prems have "a \<in> set ps_kb" "b \<in> set ps_kb" by auto
  with Cons.prems(1) have "sentence_sound M a" "sentence_sound M b" "cells b \<inter> mv = {}"
    by (auto simp: kb_sound_iff)
  with Cons.prems(3) p have "kb_sound M mv (resolve_pair p kb)"
    by (simp add: resolve_pair_sound)
  with Cons show ?case by simp
qed

lemma subset_resolution_sound [sound_step]:
  "kb_sound M mv kb \<Longrightarrow> kb_sound M mv (subset_resolution kb)"
  unfolding subset_resolution_def
  by (rule fold_resolve_pair_sound [OF _ set_permutations2])

lemma map_mark_statement_sound [sound_step]:
  "kb_sound M mv kb \<Longrightarrow> kb_sound M mv (map mark_statement kb)"
  by (induction kb) (simp_all add: mark_statement_sound)

text \<open>Folding the statements' marks into the AI's sets changes nothing else
  and keeps the sets right when the statements are sound.\<close>

lemma fold_collect:
  "fold (\<lambda>s b. b\<lparr>mines := mines b \<union> s_mines s, safes := safes b \<union> s_safes s\<rparr>) ss a =
   a\<lparr>mines := mines a \<union> (\<Union>s\<in>set ss. s_mines s), safes := safes a \<union> (\<Union>s\<in>set ss. s_safes s)\<rparr>"
  by (induction ss arbitrary: a) (simp_all add: Un_assoc)

lemma collect_knowledge_eq:
  "collect_knowledge a =
   a\<lparr>mines := mines a \<union> (\<Union>s\<in>set (knowledge a). s_mines s),
     safes := safes a \<union> (\<Union>s\<in>set (knowledge a). s_safes s)\<rparr>"
  by (simp add: collect_knowledge_def fold_collect)

lemma collect_knowledge_sound [sound_step]:
  "ai_sound M a \<Longrightarrow> ai_sound M (collect_knowledge a)"
  by (auto simp: ai_sound_def kb_sound_iff collect_knowledge_eq sentence_sound_def)

subsection \<open>The whole update\<close>

text \<open>Dropping cells from \<^verbatim>\<open>self.safes\<close> keeps the knowledge sound.\<close>

lemma ai_sound_safes_subset:
  "ai_sound M b \<Longrightarrow> S \<subseteq> safes b \<Longrightarrow> ai_sound M (b\<lparr>safes := S\<rparr>)"
  by (auto simp: ai_sound_def)

lemma add_knowledge_eq:
  "add_knowledge a c n =
     (let mv = insert c (moves_made a);
          ns = neighbour_cells (height a) (width a) mv c;
          kb = map mark_statement (subset_resolution (remove_empty 0
                 (remove_cell c (add_if_new (Sentence ns n) (knowledge a)))));
          b = collect_knowledge
                (a\<lparr>moves_made := mv, safes := insert c (safes a), new_sentence := ns, knowledge := kb\<rparr>)
      in b\<lparr>safes := safes b - moves_made b\<rparr>)"
  by (simp add: add_knowledge_def Let_def)

lemma new_sentence_sound:
  assumes "moves_made a \<inter> M = {}" "c \<notin> M"
    and "n = int (card (board_neighbours (height a) (width a) c \<inter> M))"
  shows "sentence_sound M (Sentence (neighbour_cells (height a) (width a) (insert c (moves_made a)) c) n)"
    and "neighbour_cells (height a) (width a) (insert c (moves_made a)) c \<inter> insert c (moves_made a) = {}"
proof -
  let ?mv = "insert c (moves_made a)"
  have ns: "neighbour_cells (height a) (width a) ?mv c = board_neighbours (height a) (width a) c - ?mv"
    by (rule neighbour_cells_eq) simp
  have "?mv \<inter> M = {}" using assms(1,2) by blast
  then show "sentence_sound M (Sentence (neighbour_cells (height a) (width a) ?mv c) n)"
    using assms(3) by (simp add: ns sentence_sound_def sentence_true_def card_Int_Diff_disjoint)
  show "neighbour_cells (height a) (width a) ?mv c \<inter> ?mv = {}"
    by (auto simp: ns)
qed

lemma add_knowledge_keeps_sound:
  assumes sound: "ai_sound M a" and safe: "c \<notin> M"
    and obs: "n = int (card (board_neighbours (height a) (width a) c \<inter> M))"
  shows "ai_sound M (add_knowledge a c n)"
proof -
  let ?mv = "insert c (moves_made a)"
  let ?ns = "neighbour_cells (height a) (width a) ?mv c"
  from sound have mv: "moves_made a \<inter> M = {}" and kb: "kb_sound M (moves_made a) (knowledge a)"
    by (simp_all add: ai_sound_def)
  note new = new_sentence_sound [OF mv safe obs]
  have kb3: "kb_sound M (moves_made a) (add_if_new (Sentence ?ns n) (knowledge a))"
    using kb new by (intro add_if_new_sound) auto
  have "kb_sound M ?mv (map mark_statement (subset_resolution (remove_empty 0
               (remove_cell c (add_if_new (Sentence ?ns n) (knowledge a))))))"
    by (intro sound_step kb3 safe)
  then have "ai_sound M (a\<lparr>moves_made := ?mv, safes := insert c (safes a), new_sentence := ?ns,
      knowledge := map mark_statement (subset_resolution (remove_empty 0
               (remove_cell c (add_if_new (Sentence ?ns n) (knowledge a)))))\<rparr>)"
    using sound safe by (auto simp: ai_sound_def)
  then have "ai_sound M (collect_knowledge (a\<lparr>moves_made := ?mv, safes := insert c (safes a),
      new_sentence := ?ns, knowledge := map mark_statement (subset_resolution (remove_empty 0
               (remove_cell c (add_if_new (Sentence ?ns n) (knowledge a)))))\<rparr>))"
    by (rule collect_knowledge_sound)
  then show ?thesis
    unfolding add_knowledge_eq Let_def by (rule ai_sound_safes_subset) blast
qed

text \<open>C1: an observation of a cell that is not a mine, with the true number
  of mines around it, keeps the knowledge base sound: no move made and no cell
  of \<^verbatim>\<open>safes\<close> is a mine, every cell of \<^verbatim>\<open>mines\<close> is one, and every
  statement is a true sentence whose recorded marks are right.\<close>

theorem add_knowledge_sound:
  assumes sound: "ai_sound M a" and safe: "c \<notin> M"
    and obs: "n = int (card (board_neighbours (height a) (width a) c \<inter> M))"
  shows "ai_sound M (add_knowledge a c n)"
  using assms by (rule add_knowledge_keeps_sound)

lemma add_knowledge_frame:
  "height (add_knowledge a c n) = height a \<and> width (add_knowledge a c n) = width a
   \<and> number_of_mines (add_knowledge a c n) = number_of_mines a
   \<and> moves_made (add_knowledge a c n) = insert c (moves_made a)"
  by (simp add: add_knowledge_eq Let_def collect_knowledge_eq)

subsection \<open>Functional properties\<close>

lemma remove_empty_keeps_nonempty:
  "filter (\<lambda>s. cells s \<noteq> {}) (remove_empty i kb) = filter (\<lambda>s. cells s \<noteq> {}) kb"
proof (induction i kb rule: remove_empty.induct)
  case (1 i kb)
  have "filter (\<lambda>s. cells s \<noteq> {}) (remove_first sentence_eq (kb ! i) kb) = filter (\<lambda>s. cells s \<noteq> {}) kb"
    if "cells (kb ! i) = {}"
    using that by (intro filter_remove_first) (simp add: sentence_eq_def)
  with "1" show ?case by (subst remove_empty.simps) simp
qed

text \<open>C19: the loop that deletes empty statements while iterating over the
  list (lines 241--243) only ever deletes empty statements: the non-empty ones
  stay, in their order.\<close>

lemma remove_empty_filter:
  "filter (\<lambda>s. cells s \<noteq> {}) (remove_empty i kb) = filter (\<lambda>s. cells s \<noteq> {}) kb"
  by (rule remove_empty_keeps_nonempty)

lemma set_resolve_pair: "set kb \<subseteq> set (resolve_pair p kb)"
  by (cases p) (auto simp: resolve_pair_def add_if_new_def)

lemma set_fold_resolve_pair: "set kb \<subseteq> set (fold resolve_pair ps kb)"
proof (induction ps arbitrary: kb)
  case Nil
  then show ?case by simp
next
  case (Cons p ps)
  have "set kb \<subseteq> set (resolve_pair p kb)" by (rule set_resolve_pair)
  also have "\<dots> \<subseteq> set (fold resolve_pair ps (resolve_pair p kb))" by (rule Cons.IH)
  finally show ?case by simp
qed

lemma resolve_pair_derives:
  assumes "count a \<noteq> 0" "count b \<noteq> 0" "cells a \<subset> cells b"
  shows "list_ex (\<lambda>t. sentence_eq t (Sentence (cells b - cells a) (count b - count a))) (resolve_pair (a, b) kb)"
  using assms
  by (auto simp: resolve_pair_def add_if_new_def list_ex_iff sentence_eq_def)

lemma permutations2_mem:
  "i < length xs \<Longrightarrow> j < length xs \<Longrightarrow> i \<noteq> j \<Longrightarrow> (xs ! i, xs ! j) \<in> set (permutations2 xs)"
  unfolding permutations2_def
  apply simp
  apply (rule bexI [where x = i])
   apply (rule conjI [OF refl])
   apply (rule bexI [where x = j])
  by auto

lemma list_ex_mono: "list_ex P xs \<Longrightarrow> set xs \<subseteq> set ys \<Longrightarrow> list_ex P ys"
  by (auto simp: list_ex_iff)

lemma resolve_pair_derives_any:
  assumes "count a \<noteq> 0" "count b \<noteq> 0" "cells a \<subset> cells b" "(a, b) \<in> set ps"
  shows "list_ex (\<lambda>t. sentence_eq t (Sentence (cells b - cells a) (count b - count a)))
           (fold resolve_pair ps kb)"
  using assms(4)
proof (induction ps arbitrary: kb)
  case Nil
  then show ?case by simp
next
  case (Cons p ps)
  show ?case
  proof (cases "p = (a, b)")
    case True
    have "list_ex (\<lambda>t. sentence_eq t (Sentence (cells b - cells a) (count b - count a))) (resolve_pair p kb)"
      using True resolve_pair_derives [OF assms(1-3)] by simp
    then show ?thesis
      by (simp add: list_ex_mono [OF _ set_fold_resolve_pair])
  next
    case False
    with Cons show ?thesis by simp
  qed
qed

text \<open>C9: one call of the resolution loop (lines 250--271) derives, for every
  two statements at different positions of the list whose counts are both
  non-zero and whose cells are strictly nested, a statement equal to their
  difference.\<close>

theorem subset_resolution_complete:
  assumes "i < length kb" "j < length kb" "i \<noteq> j"
    and "count (kb ! i) \<noteq> 0" "count (kb ! j) \<noteq> 0" "cells (kb ! i) \<subset> cells (kb ! j)"
  shows "list_ex (\<lambda>t. sentence_eq t (Sentence (cells (kb ! j) - cells (kb ! i)) (count (kb ! j) - count (kb ! i))))
           (subset_resolution kb)"
  unfolding subset_resolution_def
  by (rule resolve_pair_derives_any [OF assms(4-6) permutations2_mem [OF assms(1-3)] ])

text \<open>C10: when \<^verbatim>\<open>add_knowledge\<close> returns, every cell of a statement whose
  count equals its number of cells is in \<^verbatim>\<open>self.mines\<close>, and every unplayed
  cell of a statement with count 0 is in \<^verbatim>\<open>self.safes\<close>.\<close>

theorem add_knowledge_conclusive:
  assumes "s \<in> set (knowledge (add_knowledge a c n))"
  shows "(if int (card (cells s)) = count s then cells s \<subseteq> mines (add_knowledge a c n) else True)
       \<and> (if count s = 0 then cells s - moves_made (add_knowledge a c n) \<subseteq> safes (add_knowledge a c n) else True)"
proof -
  let ?b = "add_knowledge a c n"
  have marks: "s_mines s \<subseteq> mines ?b" "s_safes s - moves_made ?b \<subseteq> safes ?b"
    using assms by (auto simp: add_knowledge_eq Let_def collect_knowledge_eq)
  from assms obtain t where "s = mark_statement t"
    by (auto simp: add_knowledge_eq Let_def collect_knowledge_eq)
  then have "(int (card (cells s)) = count s \<longrightarrow> cells s \<subseteq> s_mines s) \<and> (count s = 0 \<longrightarrow> cells s \<subseteq> s_safes s)"
    by (simp add: mark_statement_def)
  with marks show ?thesis by auto
qed

lemma ai_init_sound: "ai_sound M (ai_init h w k)"
  by (simp add: ai_sound_def ai_init_def)

theorem add_knowledge_sound_witness:
  "ai_sound {(0, 1)} (ai_init 1 4 3) \<and> (0, 0) \<notin> {(0, 1) :: cell}
   \<and> 1 = int (card (board_neighbours 1 4 (0, 0) \<inter> {(0, 1)}))
   \<and> ai_sound {(0, 1)} (add_knowledge (ai_init 1 4 3) (0, 0) 1)"
proof -
  have h1: "ai_sound {(0, 1)} (ai_init 1 4 3)" by (rule ai_init_sound)
  have h2: "(0, 0) \<notin> {(0, 1) :: cell}" by simp
  have h3: "1 = int (card (board_neighbours 1 4 (0, 0) \<inter> {(0, 1)}))"
    by (simp add: board_neighbours_code) code_simp
  have "ai_sound {(0, 1)} (add_knowledge (ai_init 1 4 3) (0, 0) 1)"
    by (rule add_knowledge_sound [OF h1 h2]) (simp add: ai_init_def h3 [symmetric])
  with h1 h2 h3 show ?thesis by blast
qed

text \<open>The spec's example of subset resolution: from \<open>{a, b, c} = 1\<close> and
  \<open>{b, c} = 1\<close> one round derives \<open>{a} = 0\<close>.\<close>

theorem subset_resolution_complete_witness:
  "1 < length [Sentence {(0, 0), (0, 1), (0, 2)} 1, Sentence {(0, 1), (0, 2)} 1]
   \<and> (0::nat) < length [Sentence {(0, 0), (0, 1), (0, 2)} 1, Sentence {(0, 1), (0, 2)} 1]
   \<and> count (Sentence {(0, 1), (0, 2)} 1) \<noteq> 0 \<and> count (Sentence {(0, 0), (0, 1), (0, 2)} 1) \<noteq> 0
   \<and> cells (Sentence {(0, 1), (0, 2)} 1) \<subset> cells (Sentence {(0, 0), (0, 1), (0, 2)} 1)
   \<and> list_ex (\<lambda>t. sentence_eq t (Sentence {(0, 0)} 0))
       (subset_resolution [Sentence {(0, 0), (0, 1), (0, 2)} 1, Sentence {(0, 1), (0, 2)} 1])"
proof -
  let ?kb = "[Sentence {(0, 0), (0, 1), (0, 2)} 1, Sentence {(0, 1), (0, 2)} 1]"
  have ne: "{(0, 1), (0, 2)} \<noteq> {(0 :: int, 0 :: int), (0, 1), (0, 2)}"
  proof
    assume "{(0, 1), (0, 2)} = {(0 :: int, 0 :: int), (0, 1), (0, 2)}"
    then have "(0 :: int, 0 :: int) \<in> {(0, 1), (0, 2)}" by (metis insertI1)
    then show False by simp
  qed
  have h: "1 < length ?kb" "0 < length ?kb" "(1::nat) \<noteq> 0"
    "count (?kb ! 1) \<noteq> 0" "count (?kb ! 0) \<noteq> 0" "cells (?kb ! 1) \<subset> cells (?kb ! 0)"
    by (auto simp: psubset_eq ne)
  have "{(0, 0), (0, 1), (0, 2)} - {(0, 1), (0, 2)} = {(0 :: int, 0 :: int)}" by auto
  with subset_resolution_complete [OF h] h show ?thesis by simp
qed

text \<open>The spec's example of a conclusive statement: a row of four cells whose
  first cell shows one mine next to it yields \<open>{(0, 1)} = 1\<close>, and the call
  records the cell as a mine.\<close>

theorem add_knowledge_conclusive_witness:
  "\<lparr>cells = {(0, 1)}, count = 1, s_mines = {(0, 1)}, s_safes = {}\<rparr>
     \<in> set (knowledge (add_knowledge (ai_init 1 4 3) (0, 0) 1))
   \<and> {(0, 1)} \<subseteq> mines (add_knowledge (ai_init 1 4 3) (0, 0) 1)"
proof -
  have m: "\<lparr>cells = {(0, 1)}, count = 1, s_mines = {(0, 1)}, s_safes = {}\<rparr>
     \<in> set (knowledge (add_knowledge (ai_init 1 4 3) (0, 0) 1))" by code_simp
  show ?thesis using m add_knowledge_conclusive [OF m] by simp
qed


end
