(* ===== verification/Moves.thy ===== *)
theory Moves
  imports Complex_Main Knowledge
begin

text \<open>
  Move selection of \<^verbatim>\<open>MinesweeperAI\<close> (\<^verbatim>\<open>src/minesweeper.py\<close>, lines
  306--396). Both methods make a random choice: \<^verbatim>\<open>make_safe_move\<close> pops
  arbitrary elements of the Python set \<^verbatim>\<open>self.safes\<close>, \<^verbatim>\<open>make_random_move\<close>
  draws with \<^verbatim>\<open>random.sample\<close>. The first is therefore a relation between the
  state before, the result and the state after (\<open>safe_pop\<close> is the
  \<^verbatim>\<open>while\<close> loop of lines 316--319, one rule per way through the body); the
  second is a function whose result names the set a cell is drawn from uniformly
  (\<open>Choose S\<close>), so that every branch, every exception included, is a value.
  Python floats are modelled as rationals: the compared quotients have
  numerators and denominators below the board size, far below the precision at
  which a double could round two different quotients to the same value.
\<close>

subsection \<open>\<^verbatim>\<open>make_safe_move\<close>\<close>

inductive safe_pop :: "cell set \<Rightarrow> cell set \<Rightarrow> cell option \<Rightarrow> cell set \<Rightarrow> bool" where
  pop_empty: "safe_pop mv {} None {}"
| pop_return: "m \<in> S \<Longrightarrow> m \<notin> mv \<Longrightarrow> safe_pop mv S (Some m) (S - {m})"
| pop_discard: "m \<in> S \<Longrightarrow> m \<in> mv \<Longrightarrow> safe_pop mv (S - {m}) r S' \<Longrightarrow> safe_pop mv S r S'"

text \<open>The method pops from \<^verbatim>\<open>self.safes\<close> itself, so the cells it pops stay
  removed from the AI's state.\<close>

inductive make_safe_move :: "ai \<Rightarrow> cell option \<Rightarrow> ai \<Rightarrow> bool" where
  "safe_pop (moves_made a) (safes a) r S' \<Longrightarrow> make_safe_move a r (a\<lparr>safes := S'\<rparr>)"

subsection \<open>\<^verbatim>\<open>make_random_move\<close>\<close>

text \<open>\<open>Choose S\<close>: a cell drawn uniformly from the non-empty set \<open>S\<close>;
  \<open>No_move\<close>: the method returns \<^verbatim>\<open>None\<close>.\<close>

datatype guess = No_move | Choose "cell set"

text \<open>\<^verbatim>\<open>random.sample(S, 1)[0]\<close>; a sample larger than the population raises
  \<^verbatim>\<open>ValueError\<close>.\<close>

definition py_sample :: "cell set \<Rightarrow> py_error + guess" where
  "py_sample S = (if S = {} then Inl ValueError else Inr (Choose S))"

text \<open>Lines 341--346 and 369--373: the cells of the board that are neither
  moves made nor known mines.\<close>

definition random_cells :: "ai \<Rightarrow> cell set" where
  "random_cells a =
     set [(i, j). i \<leftarrow> [0..height a - 1], j \<leftarrow> [0..width a - 1],
          (i, j) \<notin> moves_made a \<and> (i, j) \<notin> mines a]"

definition ratio :: "sentence \<Rightarrow> rat" where
  "ratio s = of_int (count s) / of_nat (card (cells s))"

text \<open>Lines 356--364: the first non-empty statement with the least ratio of
  count to cells; \<^verbatim>\<open>calculated_sentence\<close> starts as the class \<^verbatim>\<open>object\<close>
  (\<open>None\<close>) and keeps it when no statement is non-empty.\<close>

definition best_sentence :: "sentence list \<Rightarrow> rat \<times> sentence option" where
  "best_sentence kb =
     fold (\<lambda>s (ch, best).
             if 0 < card (cells s) then (if ratio s < ch then (ratio s, Some s) else (ch, best))
             else (ch, best))
       kb (100, None)"

text \<open>Lines 368--375: the estimate for a cell outside the best statement.
  Reading \<^verbatim>\<open>object.cells\<close> raises \<^verbatim>\<open>AttributeError\<close>, a zero denominator
  \<^verbatim>\<open>ZeroDivisionError\<close>; neither is caught.\<close>

definition random_chance :: "ai \<Rightarrow> cell set \<Rightarrow> sentence option \<Rightarrow> py_error + rat" where
  "random_chance a rc best =
     (if 0 < card rc then
        (case best of
           None \<Rightarrow> Inl AttributeError
         | Some b \<Rightarrow>
             (let d = int (card rc) - int (card (cells b))
              in if d = 0 then Inl ZeroDivisionError
                 else Inr (of_int (number_of_mines a - int (card (mines a))) / of_int d)))
      else Inr 100)"

text \<open>The whole method. Its first loop (lines 334--336) deletes empty
  statements from \<^verbatim>\<open>self.knowledge\<close> the same way as \<^verbatim>\<open>add_knowledge\<close>, and
  that change stays in the state even when the method then raises. In the last
  branch, \<^verbatim>\<open>random_cells.remove(i)\<close> raises \<^verbatim>\<open>KeyError\<close> for a cell of the
  best statement that is not among the random cells; only \<^verbatim>\<open>AttributeError\<close>
  is caught there.\<close>

definition make_random_move :: "ai \<Rightarrow> ai \<times> (py_error + guess)" where
  "make_random_move a =
     (let a1 = a\<lparr>knowledge := remove_empty 0 (knowledge a)\<rparr>
      in if knowledge a1 = [] then (a1, py_sample (random_cells a1))
         else
           (case best_sentence (knowledge a1) of (ch, best) \<Rightarrow>
              let rc = random_cells a1 in
              (case random_chance a1 rc best of
                 Inl e \<Rightarrow> (a1, Inl e)
               | Inr rch \<Rightarrow>
                   if card rc = 0 \<and> int (card (mines a1)) = number_of_mines a1 then (a1, Inr No_move)
                   else if ch < rch then
                     (case best of
                        None \<Rightarrow> (a1, Inl AttributeError)
                      | Some b \<Rightarrow> (a1, py_sample (cells b)))
                   else
                     (case best of
                        None \<Rightarrow> (a1, py_sample rc)
                      | Some b \<Rightarrow>
                          if cells b \<subseteq> rc then (a1, py_sample (rc - cells b))
                          else (a1, Inl KeyError)))))"

subsection \<open>Properties of \<^verbatim>\<open>make_safe_move\<close>\<close>

inductive_cases make_safe_move_cases: "make_safe_move a r a'"

lemma safe_pop_subset: "safe_pop mv S r S' \<Longrightarrow> S' \<subseteq> S"
  by (induction rule: safe_pop.induct) auto

lemma safe_pop_result:
  "safe_pop mv S r S' \<Longrightarrow>
   (case r of None \<Rightarrow> S \<subseteq> mv \<and> S' = {} | Some m \<Rightarrow> m \<in> S \<and> m \<notin> mv \<and> S' \<subseteq> S - {m})"
proof (induction rule: safe_pop.induct)
  case pop_empty
  then show ?case by simp
next
  case (pop_return m S mv)
  then show ?case by simp
next
  case (pop_discard m S mv r S')
  then show ?case by (cases r) auto
qed

lemma safe_pop_exists: "finite S \<Longrightarrow> \<exists>r S'. safe_pop mv S r S'"
proof (induction "card S" arbitrary: S rule: less_induct)
  case less
  show ?case
  proof (cases "S = {}")
    case True
    then show ?thesis by (auto intro: pop_empty)
  next
    case False
    then obtain m where m: "m \<in> S" by blast
    show ?thesis
    proof (cases "m \<in> mv")
      case True
      have "card (S - {m}) < card S" using less.prems m by (rule card_Diff1_less)
      with less.hyps less.prems obtain r S' where "safe_pop mv (S - {m}) r S'" by blast
      with m True show ?thesis by (blast intro: pop_discard)
    next
      case False
      with m show ?thesis by (blast intro: pop_return)
    qed
  qed
qed

lemma safe_move_outcome:
  assumes "make_safe_move a r a'"
  shows "(case r of
            None \<Rightarrow> safes a \<subseteq> moves_made a \<and> safes a' = {}
          | Some m \<Rightarrow> m \<in> safes a \<and> m \<notin> moves_made a \<and> safes a' \<subseteq> safes a - {m})
         \<and> a'\<lparr>safes := safes a\<rparr> = a"
proof -
  from assms obtain S' where p: "safe_pop (moves_made a) (safes a) r S'" and a': "a' = a\<lparr>safes := S'\<rparr>"
    by (cases rule: make_safe_move_cases) blast
  from safe_pop_result [OF p] a' show ?thesis by (cases r) auto
qed

text \<open>C16: \<^verbatim>\<open>make_safe_move\<close> returns \<^verbatim>\<open>None\<close> exactly when every cell of
  \<^verbatim>\<open>self.safes\<close> is a move made, and then empties \<^verbatim>\<open>self.safes\<close>; otherwise it
  returns a cell of \<^verbatim>\<open>self.safes\<close> that is not a move made and removes it (and
  possibly some moves made) from \<^verbatim>\<open>self.safes\<close>, though its docstring says it
  does not modify it. Nothing else of the state changes.\<close>

theorem make_safe_move_result:
  assumes "make_safe_move a r a'"
  shows "(case r of
            None \<Rightarrow> safes a \<subseteq> moves_made a \<and> safes a' = {}
          | Some m \<Rightarrow> m \<in> safes a \<and> m \<notin> moves_made a \<and> safes a' \<subseteq> safes a - {m})
         \<and> a'\<lparr>safes := safes a\<rparr> = a"
  using assms by (rule safe_move_outcome)

text \<open>C17: the \<^verbatim>\<open>while\<close> loop of \<^verbatim>\<open>make_safe_move\<close> always ends: on a finite
  \<^verbatim>\<open>self.safes\<close> some run of it returns.\<close>

theorem make_safe_move_exists:
  "finite (safes a) \<Longrightarrow> \<exists>r a'. make_safe_move a r a'"
  using safe_pop_exists [of "safes a" "moves_made a"] by (blast intro: make_safe_move.intros)

lemma make_safe_move_frame:
  "make_safe_move a r a' \<Longrightarrow> height a' = height a \<and> width a' = width a \<and> moves_made a' = moves_made a"
  by (auto elim!: make_safe_move_cases)

lemma make_safe_move_sound:
  "make_safe_move a r a' \<Longrightarrow> ai_sound M a \<Longrightarrow> ai_sound M a'"
  by (auto elim!: make_safe_move_cases intro: ai_sound_safes_subset dest: safe_pop_subset)

subsection \<open>Properties of \<^verbatim>\<open>make_random_move\<close>\<close>

lemma random_cells_disjoint:
  "random_cells a \<inter> moves_made a = {}" "random_cells a \<inter> mines a = {}"
  by (auto simp: random_cells_def)

lemma best_sentence_fold:
  "fold (\<lambda>s (ch, best).
           if 0 < card (cells s) then (if ratio s < ch then (ratio s, Some s) else (ch, best))
           else (ch, best)) kb (ch0, best0) = (ch, Some b) \<Longrightarrow>
   Some b = best0 \<or> (b \<in> set kb \<and> 0 < card (cells b))"
proof (induction kb arbitrary: ch0 best0)
  case Nil
  then show ?case by simp
next
  case (Cons s kb)
  then show ?case by (fastforce split: if_splits)
qed

lemma best_sentence_in:
  "best_sentence kb = (ch, Some b) \<Longrightarrow> b \<in> set kb \<and> 0 < card (cells b)"
  unfolding best_sentence_def by (drule best_sentence_fold) simp

lemma make_random_move_state:
  "fst (make_random_move a) = a\<lparr>knowledge := remove_empty 0 (knowledge a)\<rparr>"
  by (simp add: make_random_move_def Let_def split: prod.split sum.split option.split)

lemma make_random_move_sound:
  "ai_sound M a \<Longrightarrow> ai_sound M (fst (make_random_move a))"
  by (simp add: make_random_move_state ai_sound_def remove_empty_sound)

lemma py_sample_Choose: "py_sample X = Inr (Choose S) \<longleftrightarrow> S = X \<and> X \<noteq> {}"
  by (auto simp: py_sample_def)

text \<open>Every cell \<^verbatim>\<open>make_random_move\<close> can return is a random cell or a cell
  of a statement of the knowledge.\<close>

lemma make_random_move_Choose:
  assumes "snd (make_random_move a) = Inr (Choose S)"
  shows "S \<subseteq> random_cells a \<or> (\<exists>b\<in>set (knowledge a). S = cells b)"
proof -
  let ?a1 = "a\<lparr>knowledge := remove_empty 0 (knowledge a)\<rparr>"
  have rc: "random_cells ?a1 = random_cells a" by (simp add: random_cells_def)
  have "S \<subseteq> random_cells ?a1 \<or> (\<exists>b\<in>set (knowledge ?a1). S = cells b)"
    using assms
    by (auto simp: make_random_move_def Let_def py_sample_Choose
             split: prod.splits sum.splits option.splits if_splits dest: best_sentence_in)
  then show ?thesis using set_remove_empty [of 0 "knowledge a"] rc by auto
qed

text \<open>C8: in a sound state, \<^verbatim>\<open>make_random_move\<close> never returns a move already
  made.\<close>

theorem make_random_move_not_played:
  assumes "ai_sound M a" and "snd (make_random_move a) = Inr (Choose S)"
  shows "S \<inter> moves_made a = {}"
proof -
  from assms(1) have "\<forall>b\<in>set (knowledge a). cells b \<inter> moves_made a = {}"
    by (simp add: ai_sound_def kb_sound_iff)
  with make_random_move_Choose [OF assms(2)] random_cells_disjoint(1) [of a]
  show ?thesis by blast
qed

subsection \<open>Witnesses\<close>

text \<open>C32: when no unknown cell is left and every mine is known, what
  \<^verbatim>\<open>make_random_move\<close> does depends on leftover statements: with a non-empty
  statement left it returns \<^verbatim>\<open>None\<close> (lines 382--383), as the spec's
  exhausted-knowledge case requires; with none left it raises
  \<^verbatim>\<open>ValueError\<close> from \<^verbatim>\<open>random.sample\<close> of the empty set (line 347).\<close>

theorem make_random_move_exhausted:
  assumes "random_cells a = {}" "int (card (mines a)) = number_of_mines a"
  shows "snd (make_random_move a) =
           (if remove_empty 0 (knowledge a) = [] then Inl ValueError else Inr No_move)"
proof -
  have rc: "random_cells (a\<lparr>knowledge := kb\<rparr>) = {}" for kb
    using assms(1) by (simp add: random_cells_def)
  show ?thesis
    using assms(2) by (auto simp: make_random_move_def Let_def random_chance_def py_sample_def rc
                            split: prod.split)
qed

theorem make_safe_move_result_witness:
  "make_safe_move ((ai_init 1 4 3)\<lparr>safes := {(0, 2)}\<rparr>) (Some (0, 2)) (ai_init 1 4 3)
   \<and> (0, 2) \<in> safes ((ai_init 1 4 3)\<lparr>safes := {(0, 2)}\<rparr>)
   \<and> (0, 2) \<notin> moves_made ((ai_init 1 4 3)\<lparr>safes := {(0, 2)}\<rparr>)
   \<and> safes (ai_init 1 4 3) \<subseteq> {(0, 2)} - {(0, 2)}"
proof -
  have p: "safe_pop {} {(0, 2)} (Some (0, 2)) ({(0, 2)} - {(0, 2)})"
    by (rule pop_return) simp_all
  have h: "make_safe_move ((ai_init 1 4 3)\<lparr>safes := {(0, 2)}\<rparr>) (Some (0, 2)) (ai_init 1 4 3)"
    using make_safe_move.intros [of "(ai_init 1 4 3)\<lparr>safes := {(0, 2)}\<rparr>" "Some (0, 2)" "{}"] p
    by (simp add: ai_init_def)
  show ?thesis using h make_safe_move_result [OF h] by simp
qed

theorem make_safe_move_exists_witness:
  "finite (safes ((ai_init 1 4 3)\<lparr>safes := {(0, 2)}\<rparr>))
   \<and> (\<exists>r a'. make_safe_move ((ai_init 1 4 3)\<lparr>safes := {(0, 2)}\<rparr>) r a')"
proof -
  have h: "finite (safes ((ai_init 1 4 3)\<lparr>safes := {(0, 2)}\<rparr>))" by simp
  show ?thesis using h make_safe_move_exists [OF h] by blast
qed

theorem make_random_move_not_played_witness:
  "ai_sound {(0, 1), (0, 2), (0, 3)} (ai_init 2 2 3)
   \<and> snd (make_random_move (ai_init 2 2 3)) = Inr (Choose {(0, 0), (0, 1), (1, 0), (1, 1)})
   \<and> {(0, 0), (0, 1), (1, 0), (1, 1)} \<inter> moves_made (ai_init 2 2 3) = {}"
proof -
  have h1: "ai_sound {(0, 1), (0, 2), (0, 3)} (ai_init 2 2 3)" by (rule ai_init_sound)
  have h2: "snd (make_random_move (ai_init 2 2 3)) = Inr (Choose {(0, 0), (0, 1), (1, 0), (1, 1)})"
    by code_simp
  show ?thesis using h1 h2 make_random_move_not_played [OF h1 h2] by blast
qed

theorem make_random_move_exhausted_witness:
  "random_cells (add_knowledge (ai_init 1 2 1) (0, 0) 1) = {}
   \<and> int (card (mines (add_knowledge (ai_init 1 2 1) (0, 0) 1))) = number_of_mines (add_knowledge (ai_init 1 2 1) (0, 0) 1)
   \<and> remove_empty 0 (knowledge (add_knowledge (ai_init 1 2 1) (0, 0) 1)) \<noteq> []
   \<and> snd (make_random_move (add_knowledge (ai_init 1 2 1) (0, 0) 1)) = Inr No_move"
proof -
  have r: "random_cells (add_knowledge (ai_init 1 2 1) (0, 0) 1) = {}" by code_simp
  have m: "int (card (mines (add_knowledge (ai_init 1 2 1) (0, 0) 1))) = number_of_mines (add_knowledge (ai_init 1 2 1) (0, 0) 1)"
    by code_simp
  have k: "remove_empty 0 (knowledge (add_knowledge (ai_init 1 2 1) (0, 0) 1)) \<noteq> []" by code_simp
  from make_random_move_exhausted [OF r m] k r m show ?thesis by simp
qed

end
