(* ===== verification/Worlds.thy ===== *)
theory Worlds
  imports Moves
begin

text \<open>
  What the knowledge base of \<^verbatim>\<open>MinesweeperAI\<close> means, and that
  \<^verbatim>\<open>add_knowledge\<close> (\<^verbatim>\<open>src/minesweeper.py\<close>, lines 184--303) implements it.
  The abstract state of the AI is the set of \<^emph>\<open>worlds\<close> it still considers
  possible: the mine sets \<open>M\<close> that no move made hits, that contain every cell
  of \<^verbatim>\<open>self.mines\<close>, no cell of \<^verbatim>\<open>self.safes\<close>, and of which every statement
  of \<^verbatim>\<open>self.knowledge\<close> is true. The abstract observation of \<open>n\<close> mines
  around a revealed cell \<open>c\<close> keeps the worlds in which \<open>c\<close> is no mine and has
  \<open>n\<close> mines among its neighbours (\<open>observe\<close>). The refinement theorem says
  that the method's many steps (appending the new sentence, removing the cell
  from every statement, deleting empty statements, subset resolution, marking,
  collecting) compute exactly that intersection: nothing is lost and nothing
  unwarranted is concluded.

  The theorem needs two facts of the state before the call. \<open>marks_collected\<close>:
  the marks the statements recorded are in the AI's sets (lines 282--286
  establish it at the end of every call, and \<^verbatim>\<open>make_safe_move\<close> breaks it by
  popping a safe cell that is then played). \<open>ai_wf\<close>, the well-formedness of
  the state: every cell the AI knows of lies on the board, and no statement
  mentions a move made; every method of the class keeps it.
\<close>

subsection \<open>The abstraction\<close>

definition consistent :: "cell set \<Rightarrow> ai \<Rightarrow> bool" where
  "consistent M a \<longleftrightarrow>
     moves_made a \<inter> M = {} \<and> mines a \<subseteq> M \<and> safes a \<inter> M = {}
     \<and> list_all (sentence_true M) (knowledge a)"

definition worlds :: "ai \<Rightarrow> cell set set" where
  "worlds a = {M. consistent M a}"

definition observe :: "int \<Rightarrow> int \<Rightarrow> cell \<Rightarrow> int \<Rightarrow> cell set set \<Rightarrow> cell set set" where
  "observe h w c n W = {M \<in> W. c \<notin> M \<and> n = int (card (board_neighbours h w c \<inter> M))}"

definition marks_collected :: "ai \<Rightarrow> bool" where
  "marks_collected a \<longleftrightarrow>
     list_all (\<lambda>s. s_mines s \<subseteq> mines a \<and> s_safes s \<subseteq> safes a \<union> moves_made a) (knowledge a)"

definition stmt_wf :: "int \<Rightarrow> int \<Rightarrow> cell set \<Rightarrow> sentence \<Rightarrow> bool" where
  "stmt_wf h w mv s \<longleftrightarrow>
     cells s \<subseteq> grid h w \<and> cells s \<inter> mv = {} \<and> s_mines s \<subseteq> grid h w \<and> s_safes s \<subseteq> grid h w"

definition ai_wf :: "ai \<Rightarrow> bool" where
  "ai_wf a \<longleftrightarrow>
     mines a \<subseteq> grid (height a) (width a) \<and> safes a \<subseteq> grid (height a) (width a)
     \<and> list_all (stmt_wf (height a) (width a) (moves_made a)) (knowledge a)"

text \<open>Two facts that hold in every state of a game, \<^verbatim>\<open>make_safe_move\<close>'s
  pops included: the statements' recorded mines are in \<^verbatim>\<open>self.mines\<close>, and
  every cell recorded as safe, by the AI or by a statement, is a move made or
  lies in a statement with count 0.\<close>

definition mines_collected :: "ai \<Rightarrow> bool" where
  "mines_collected a \<longleftrightarrow> list_all (\<lambda>s. s_mines s \<subseteq> mines a) (knowledge a)"

definition safes_covered :: "ai \<Rightarrow> bool" where
  "safes_covered a \<longleftrightarrow>
     (\<forall>x \<in> safes a \<union> (\<Union>s\<in>set (knowledge a). s_safes s).
        x \<in> moves_made a \<or> list_ex (\<lambda>s. x \<in> cells s \<and> count s = 0) (knowledge a))"

subsection \<open>The statements after \<^verbatim>\<open>add_knowledge\<close>\<close>

lemma add_knowledge_fields:
  fixes a c n
  defines "mv \<equiv> insert c (moves_made a)"
  defines "K \<equiv> add_if_new (Sentence (neighbour_cells (height a) (width a) mv c) n) (knowledge a)"
  defines "kb \<equiv> map mark_statement (subset_resolution (remove_empty 0 (remove_cell c K)))"
  shows "knowledge (add_knowledge a c n) = kb"
    and "moves_made (add_knowledge a c n) = mv"
    and "mines (add_knowledge a c n) = mines a \<union> (\<Union>s\<in>set kb. s_mines s)"
    and "safes (add_knowledge a c n) = (insert c (safes a) \<union> (\<Union>s\<in>set kb. s_safes s)) - mv"
  unfolding assms by (simp_all add: add_knowledge_eq Let_def collect_knowledge_eq)

lemma set_add_if_new: "set kb \<subseteq> set (add_if_new s kb)" "set (add_if_new s kb) \<subseteq> insert s (set kb)"
  by (auto simp: add_if_new_def)

lemma add_if_new_has: "\<exists>u\<in>set (add_if_new s kb). cells u = cells s \<and> count u = count s"
  by (auto simp: add_if_new_def list_ex_iff sentence_eq_def)

lemma remove_cell_mem:
  "s \<in> set kb \<Longrightarrow> s\<lparr>cells := cells s - {c}\<rparr> \<in> set (remove_cell c kb)"
proof -
  assume s: "s \<in> set kb"
  have "s\<lparr>cells := cells s - {c}\<rparr> = (if c \<in> cells s then s\<lparr>cells := cells s - {c}\<rparr> else s)"
    by (cases "c \<in> cells s") simp_all
  then show ?thesis unfolding remove_cell_def set_map by (rule image_eqI) (rule s)
qed

lemma remove_cell_origin:
  "t \<in> set (remove_cell c kb) \<Longrightarrow> \<exists>s\<in>set kb. t = s\<lparr>cells := cells s - {c}\<rparr>"
proof -
  assume "t \<in> set (remove_cell c kb)"
  then obtain s where s: "s \<in> set kb" "t = (if c \<in> cells s then s\<lparr>cells := cells s - {c}\<rparr> else s)"
    by (auto simp: remove_cell_def)
  then have "t = s\<lparr>cells := cells s - {c}\<rparr>" by (cases "c \<in> cells s") simp_all
  with s(1) show ?thesis by blast
qed

lemma resolve_pair_origin:
  "t \<in> set (resolve_pair (x, y) kb) \<Longrightarrow>
   t \<in> set kb \<or> (cells t \<subseteq> cells y \<and> s_mines t = {} \<and> s_safes t = {})"
  by (auto simp: resolve_pair_def add_if_new_def split: if_splits)

lemma fold_resolve_pair_origin:
  "t \<in> set (fold resolve_pair ps kb) \<Longrightarrow> set ps \<subseteq> S \<times> S \<Longrightarrow>
   t \<in> set kb \<or> (\<exists>y\<in>S. cells t \<subseteq> cells y \<and> s_mines t = {} \<and> s_safes t = {})"
proof (induction ps arbitrary: kb)
  case Nil
  then show ?case by simp
next
  case (Cons p ps)
  obtain x y where p: "p = (x, y)" by (cases p)
  with Cons.prems(2) have y: "y \<in> S" by auto
  from Cons.IH [of "resolve_pair p kb"] Cons.prems p
  have "t \<in> set (resolve_pair (x, y) kb) \<or> (\<exists>y\<in>S. cells t \<subseteq> cells y \<and> s_mines t = {} \<and> s_safes t = {})"
    by simp
  with y show ?case by (blast dest: resolve_pair_origin)
qed

text \<open>A statement of the resolved list is a statement of the list or a fresh
  sentence over part of the cells of one of its statements.\<close>

lemma subset_resolution_origin:
  "t \<in> set (subset_resolution kb) \<Longrightarrow>
   t \<in> set kb \<or> (\<exists>y\<in>set kb. cells t \<subseteq> cells y \<and> s_mines t = {} \<and> s_safes t = {})"
  unfolding subset_resolution_def by (erule fold_resolve_pair_origin) (rule set_permutations2)

lemma remove_empty_keeps_mem:
  "s \<in> set kb \<Longrightarrow> cells s \<noteq> {} \<Longrightarrow> s \<in> set (remove_empty i kb)"
proof -
  assume "s \<in> set kb" "cells s \<noteq> {}"
  then have "s \<in> set (filter (\<lambda>s. cells s \<noteq> {}) kb)" by simp
  then have "s \<in> set (filter (\<lambda>s. cells s \<noteq> {}) (remove_empty i kb))"
    by (simp only: remove_empty_keeps_nonempty)
  then show ?thesis by simp
qed

text \<open>A statement that is not empty once the revealed cell is removed
  survives, marked, to the end of the method.\<close>

lemma add_knowledge_keeps_statement:
  assumes "t \<in> set (remove_cell c K)" "cells t \<noteq> {}"
  shows "mark_statement t \<in> set (map mark_statement (subset_resolution (remove_empty 0 (remove_cell c K))))"
proof -
  have "t \<in> set (remove_empty 0 (remove_cell c K))" using assms by (rule remove_empty_keeps_mem)
  then have "t \<in> set (subset_resolution (remove_empty 0 (remove_cell c K)))"
    unfolding subset_resolution_def by (rule subsetD [OF set_fold_resolve_pair])
  then show ?thesis by simp
qed

subsection \<open>Truth of the statements\<close>

lemma sentence_true_cong:
  "cells s = cells t \<Longrightarrow> count s = count t \<Longrightarrow> sentence_true M s \<longleftrightarrow> sentence_true M t"
  by (simp add: sentence_true_def)

text \<open>An empty statement is true of every world or of none.\<close>

lemma sentence_true_empty: "cells t = {} \<Longrightarrow> sentence_true M t \<longleftrightarrow> count t = 0"
  by (simp add: sentence_true_def)

lemma sentence_true_remove_cell:
  "c \<notin> M \<Longrightarrow> sentence_true M (s\<lparr>cells := cells s - {c}\<rparr>) \<longleftrightarrow> sentence_true M s"
proof -
  assume "c \<notin> M"
  then have "(cells s - {c}) \<inter> M = cells s \<inter> M" by blast
  then show ?thesis by (simp add: sentence_true_def)
qed

lemma consistent_if_sound: "ai_sound M a \<Longrightarrow> consistent M a"
  by (auto simp: ai_sound_def consistent_def kb_sound_iff list_all_iff sentence_sound_def)

lemma sound_if_consistent:
  assumes "consistent M a" "marks_collected a" "ai_wf a"
  shows "ai_sound M a"
proof -
  have "sentence_sound M s \<and> cells s \<inter> moves_made a = {}" if s: "s \<in> set (knowledge a)" for s
  proof -
    from assms(2) s have "s_mines s \<subseteq> mines a" "s_safes s \<subseteq> safes a \<union> moves_made a"
      by (auto simp: marks_collected_def list_all_iff)
    moreover from assms(3) s have "cells s \<inter> moves_made a = {}"
      by (auto simp: ai_wf_def list_all_iff stmt_wf_def)
    moreover from assms(1) s have "sentence_true M s" "mines a \<subseteq> M"
      "safes a \<inter> M = {}" "moves_made a \<inter> M = {}"
      by (auto simp: consistent_def list_all_iff)
    ultimately show ?thesis by (auto simp: sentence_sound_def)
  qed
  with assms(1) show ?thesis by (simp add: ai_sound_def consistent_def kb_sound_iff)
qed

subsection \<open>Nothing is lost\<close>

text \<open>A world the AI still considers possible after the observation was
  possible before it and agrees with the observation, provided some world
  agreed with both.\<close>

lemma add_knowledge_worlds_sub:
  assumes M: "consistent M (add_knowledge a c n)"
    and M0: "M0 \<in> observe (height a) (width a) c n (worlds a)"
  shows "M \<in> observe (height a) (width a) c n (worlds a)"
proof -
  let ?mv = "insert c (moves_made a)"
  let ?bn = "board_neighbours (height a) (width a) c"
  let ?ns = "neighbour_cells (height a) (width a) ?mv c"
  let ?K = "add_if_new (Sentence ?ns n) (knowledge a)"
  let ?kb = "map mark_statement (subset_resolution (remove_empty 0 (remove_cell c ?K)))"
  note fields = add_knowledge_fields [of a c n]
  from M have mvM: "?mv \<inter> M = {}" and kbM: "list_all (sentence_true M) ?kb"
    and minesM: "mines (add_knowledge a c n) \<subseteq> M" and safesM: "safes (add_knowledge a c n) \<inter> M = {}"
    by (simp_all add: consistent_def fields(1,2))
  from M0 have a0: "consistent M0 a" and c0: "c \<notin> M0" and n0: "n = int (card (?bn \<inter> M0))"
    by (simp_all add: observe_def worlds_def)
  then have mv0: "?mv \<inter> M0 = {}" by (simp add: consistent_def)
  have ns: "?ns = ?bn - ?mv" by (rule neighbour_cells_eq) simp
  have keep: "sentence_true M t" if t: "t \<in> set (remove_cell c ?K)" and t0: "sentence_true M0 t" for t
  proof (cases "cells t = {}")
    case True
    with t0 show ?thesis by (simp add: sentence_true_empty)
  next
    case False
    have "sentence_true M (mark_statement t)"
      using add_knowledge_keeps_statement [OF t False] kbM unfolding list_all_iff by blast
    then show ?thesis by (simp add: sentence_true_cong [of "mark_statement t" t])
  qed
  have old: "sentence_true M s" if s: "s \<in> set (knowledge a)" for s
  proof -
    have "s\<lparr>cells := cells s - {c}\<rparr> \<in> set (remove_cell c ?K)"
      using s set_add_if_new(1) by (blast intro: remove_cell_mem)
    moreover have "sentence_true M0 (s\<lparr>cells := cells s - {c}\<rparr>)"
      using a0 s c0 by (simp add: consistent_def list_all_iff sentence_true_remove_cell)
    ultimately have "sentence_true M (s\<lparr>cells := cells s - {c}\<rparr>)" by (rule keep)
    moreover have "c \<notin> M" using mvM by blast
    ultimately show ?thesis by (simp add: sentence_true_remove_cell)
  qed
  obtain u where u: "u \<in> set ?K" "cells u = ?ns" "count u = n"
    using add_if_new_has [of "Sentence ?ns n" "knowledge a"] by auto
  have "c \<notin> ?ns" by (simp add: ns)
  then have ucells: "cells (u\<lparr>cells := cells u - {c}\<rparr>) = ?ns" using u(2) by simp
  have "sentence_true M0 (u\<lparr>cells := cells u - {c}\<rparr>)"
    using n0 mv0 ucells u(3) by (simp add: sentence_true_def ns card_Int_Diff_disjoint)
  with u(1) have "sentence_true M (u\<lparr>cells := cells u - {c}\<rparr>)" by (blast intro: keep remove_cell_mem)
  then have obs: "n = int (card (?bn \<inter> M))"
    using mvM ucells u(3) by (simp add: sentence_true_def ns card_Int_Diff_disjoint)
  have "mines a \<subseteq> M" using minesM by (auto simp: fields(3))
  moreover have "safes a \<inter> M = {}" using safesM mvM by (auto simp: fields(4))
  moreover have "moves_made a \<inter> M = {}" "c \<notin> M" using mvM by auto
  ultimately show ?thesis
    using obs old by (simp add: observe_def worlds_def consistent_def list_all_iff)
qed

subsection \<open>Nothing unwarranted is concluded\<close>

text \<open>Lines 282--286 collect the marks of every statement, so at the end of
  the method every mark is in the AI's sets.\<close>

lemma marks_collected_add_knowledge: "marks_collected (add_knowledge a c n)"
  by (auto simp: marks_collected_def list_all_iff add_knowledge_fields)

lemma marks_collected_ai_init: "marks_collected (ai_init h w k)"
  by (simp add: marks_collected_def ai_init_def)

lemma add_knowledge_worlds_sup:
  assumes "M \<in> observe (height a) (width a) c n (worlds a)" "marks_collected a" "ai_wf a"
  shows "M \<in> worlds (add_knowledge a c n)"
proof -
  from assms(1) have "consistent M a" "c \<notin> M" "n = int (card (board_neighbours (height a) (width a) c \<inter> M))"
    by (simp_all add: observe_def worlds_def)
  then have "ai_sound M (add_knowledge a c n)"
    using assms(2,3) by (blast intro: add_knowledge_keeps_sound sound_if_consistent)
  then show ?thesis by (simp add: worlds_def consistent_if_sound)
qed

subsection \<open>Well-formedness\<close>

lemma stmt_wf_mark_statement: "stmt_wf h w mv t \<Longrightarrow> stmt_wf h w mv (mark_statement t)"
  by (auto simp: stmt_wf_def mark_statement_def)

lemma stmt_wf_remove_cell:
  "stmt_wf h w mv t \<Longrightarrow> stmt_wf h w (insert c mv) (t\<lparr>cells := cells t - {c}\<rparr>)"
  by (auto simp: stmt_wf_def)

lemma stmt_wf_subset_resolution:
  "list_all (stmt_wf h w mv) kb \<Longrightarrow> list_all (stmt_wf h w mv) (subset_resolution kb)"
proof (unfold list_all_iff, intro ballI)
  fix t
  assume wf: "\<forall>s\<in>set kb. stmt_wf h w mv s" and t: "t \<in> set (subset_resolution kb)"
  from subset_resolution_origin [OF t] show "stmt_wf h w mv t"
  proof
    assume "\<exists>y\<in>set kb. cells t \<subseteq> cells y \<and> s_mines t = {} \<and> s_safes t = {}"
    with wf show ?thesis by (fastforce simp: stmt_wf_def)
  qed (use wf in blast)
qed

lemma neighbour_cells_grid: "neighbour_cells h w mv c \<subseteq> grid h w"
  by (auto simp: neighbour_cells_def grid_def)

lemma neighbour_cells_moves: "c \<in> mv \<Longrightarrow> neighbour_cells h w mv c \<inter> mv = {}"
  by (auto simp: neighbour_cells_eq)

lemma ai_wf_add_knowledge:
  assumes wf: "ai_wf a"
  shows "ai_wf (add_knowledge a c n)"
proof -
  let ?h = "height a" and ?w = "width a"
  let ?mv = "insert c (moves_made a)"
  let ?ns = "neighbour_cells ?h ?w ?mv c"
  let ?K = "add_if_new (Sentence ?ns n) (knowledge a)"
  let ?kb = "map mark_statement (subset_resolution (remove_empty 0 (remove_cell c ?K)))"
  note fields = add_knowledge_fields [of a c n]
  have "stmt_wf ?h ?w ?mv (Sentence ?ns n)"
    using neighbour_cells_grid [of ?h ?w ?mv c] neighbour_cells_moves [of c ?mv ?h ?w]
    by (simp add: stmt_wf_def)
  moreover have "\<forall>s\<in>set (knowledge a). stmt_wf ?h ?w (moves_made a) s"
    using wf by (simp add: ai_wf_def list_all_iff)
  ultimately have "\<forall>u\<in>set ?K. stmt_wf ?h ?w ?mv u \<or> stmt_wf ?h ?w (moves_made a) u"
    using set_add_if_new(2) [of "Sentence ?ns n" "knowledge a"] by blast
  then have "\<forall>u\<in>set ?K. stmt_wf ?h ?w ?mv (u\<lparr>cells := cells u - {c}\<rparr>)"
    using stmt_wf_remove_cell [of ?h ?w ?mv _ c] stmt_wf_remove_cell [of ?h ?w "moves_made a" _ c] by auto
  then have "\<forall>t\<in>set (remove_cell c ?K). stmt_wf ?h ?w ?mv t"
    by (blast dest: remove_cell_origin)
  then have "list_all (stmt_wf ?h ?w ?mv) (remove_empty 0 (remove_cell c ?K))"
    using set_remove_empty [of 0 "remove_cell c ?K"] by (auto simp: list_all_iff)
  then have "list_all (stmt_wf ?h ?w ?mv) (subset_resolution (remove_empty 0 (remove_cell c ?K)))"
    by (rule stmt_wf_subset_resolution)
  then have kb: "list_all (stmt_wf ?h ?w ?mv) ?kb"
    by (auto simp: list_all_iff intro: stmt_wf_mark_statement)
  then have "(\<Union>s\<in>set ?kb. s_mines s) \<subseteq> grid ?h ?w" "(\<Union>s\<in>set ?kb. s_safes s) \<subseteq> grid ?h ?w"
    by (auto simp: list_all_iff stmt_wf_def)
  with wf kb show ?thesis
    by (auto simp: ai_wf_def fields add_knowledge_frame)
qed

lemma ai_wf_ai_init: "ai_wf (ai_init h w k)"
  by (simp add: ai_wf_def ai_init_def)

lemma ai_wf_make_safe_move:
  assumes "make_safe_move a r a'" "ai_wf a"
  shows "ai_wf a'"
proof -
  from assms(1) obtain S' where a': "a' = a\<lparr>safes := S'\<rparr>" and sub: "S' \<subseteq> safes a"
    by (auto elim!: make_safe_move_cases dest!: safe_pop_subset)
  have "S' \<subseteq> grid (height a) (width a)" using sub assms(2) unfolding ai_wf_def by blast
  with assms(2) show ?thesis by (simp add: ai_wf_def a')
qed

lemma ai_wf_make_random_move: "ai_wf a \<Longrightarrow> ai_wf (fst (make_random_move a))"
  using set_remove_empty [of 0 "knowledge a"]
  by (auto simp: ai_wf_def make_random_move_state list_all_iff)

text \<open>The two methods the class defines but never calls keep the state well
  formed when the cell is on the board.\<close>

lemma stmt_wf_mark_mine_safe:
  "stmt_wf h w mv s \<Longrightarrow> c \<in> grid h w \<Longrightarrow> stmt_wf h w mv (sentence_mark_mine c s)"
  "stmt_wf h w mv s \<Longrightarrow> c \<in> grid h w \<Longrightarrow> stmt_wf h w mv (sentence_mark_safe c s)"
  by (simp_all add: stmt_wf_def sentence_mark_mine_def sentence_mark_safe_def)

lemma ai_wf_ai_mark_mine:
  "ai_wf a \<Longrightarrow> c \<in> grid (height a) (width a) \<Longrightarrow> ai_wf (ai_mark_mine c a)"
  by (auto simp: ai_wf_def ai_mark_mine_def list_all_iff intro: stmt_wf_mark_mine_safe(1))

lemma ai_wf_ai_mark_safe:
  "ai_wf a \<Longrightarrow> c \<in> grid (height a) (width a) \<Longrightarrow> ai_wf (ai_mark_safe c a)"
  by (auto simp: ai_wf_def ai_mark_safe_def list_all_iff intro: stmt_wf_mark_mine_safe(2))

subsection \<open>The refinement along a whole game\<close>

text \<open>With the two game invariants in place of \<open>marks_collected\<close>, a world
  consistent with the state makes the state sound.\<close>

lemma sound_if_covered:
  assumes "consistent M a" "mines_collected a" "safes_covered a" "ai_wf a"
  shows "ai_sound M a"
proof -
  from assms(1) have mv: "moves_made a \<inter> M = {}" and kb: "\<forall>s\<in>set (knowledge a). sentence_true M s"
    by (simp_all add: consistent_def list_all_iff)
  have out: "x \<notin> M" if "x \<in> safes a \<union> (\<Union>s\<in>set (knowledge a). s_safes s)" for x
  proof -
    from assms(3) that
    have "x \<in> moves_made a \<or> (\<exists>s\<in>set (knowledge a). x \<in> cells s \<and> count s = 0)"
      by (auto simp: safes_covered_def list_ex_iff)
    then show ?thesis using mv kb sentence_true_all_safe by blast
  qed
  have "sentence_sound M s \<and> cells s \<inter> moves_made a = {}" if s: "s \<in> set (knowledge a)" for s
  proof -
    have "s_mines s \<subseteq> M" using assms(1,2) s by (auto simp: mines_collected_def consistent_def list_all_iff)
    moreover have "s_safes s \<inter> M = {}" using out s by blast
    moreover have "cells s \<inter> moves_made a = {}"
      using assms(4) s by (auto simp: ai_wf_def list_all_iff stmt_wf_def)
    ultimately show ?thesis using kb s by (simp add: sentence_sound_def)
  qed
  moreover have "safes a \<inter> M = {}" using out by blast
  ultimately show ?thesis using assms(1) by (simp add: ai_sound_def consistent_def kb_sound_iff)
qed

lemma add_knowledge_worlds_covered:
  assumes "mines_collected a" "safes_covered a" "ai_wf a"
    and "observe (height a) (width a) c n (worlds a) \<noteq> {}"
  shows "worlds (add_knowledge a c n) = observe (height a) (width a) c n (worlds a)"
proof
  from assms(4) obtain M0 where "M0 \<in> observe (height a) (width a) c n (worlds a)" by blast
  then show "worlds (add_knowledge a c n) \<subseteq> observe (height a) (width a) c n (worlds a)"
    unfolding worlds_def [of "add_knowledge a c n"] by (blast intro: add_knowledge_worlds_sub)
  show "observe (height a) (width a) c n (worlds a) \<subseteq> worlds (add_knowledge a c n)"
  proof
    fix M
    assume "M \<in> observe (height a) (width a) c n (worlds a)"
    then have "consistent M a" "c \<notin> M" "n = int (card (board_neighbours (height a) (width a) c \<inter> M))"
      by (simp_all add: observe_def worlds_def)
    then have "ai_sound M (add_knowledge a c n)"
      using assms(1-3) by (blast intro: add_knowledge_keeps_sound sound_if_covered)
    then show "M \<in> worlds (add_knowledge a c n)" by (simp add: worlds_def consistent_if_sound)
  qed
qed

lemma mines_collected_add_knowledge: "mines_collected (add_knowledge a c n)"
  using marks_collected_add_knowledge [of a c n] by (auto simp: mines_collected_def marks_collected_def list_all_iff)

text \<open>A safe mark of a statement after the call was a safe mark before it, or
  the statement has count 0 and the cell is one of its cells.\<close>

lemma add_knowledge_s_safes_origin:
  assumes "s \<in> set (knowledge (add_knowledge a c n))" "x \<in> s_safes s"
  shows "(\<exists>u\<in>set (knowledge a). x \<in> s_safes u) \<or> (x \<in> cells s \<and> count s = 0)"
proof -
  let ?K = "add_if_new (Sentence (neighbour_cells (height a) (width a) (insert c (moves_made a)) c) n) (knowledge a)"
  note fields = add_knowledge_fields [of a c n]
  from assms(1) obtain t where t: "t \<in> set (subset_resolution (remove_empty 0 (remove_cell c ?K)))"
    "s = mark_statement t" by (auto simp: fields(1))
  from assms(2) t(2) have "x \<in> s_safes t \<or> (x \<in> cells s \<and> count s = 0)"
    by (auto simp: mark_statement_def split: if_splits)
  then show ?thesis
  proof
    assume x: "x \<in> s_safes t"
    with subset_resolution_origin [OF t(1)] have "t \<in> set (remove_empty 0 (remove_cell c ?K))" by auto
    then have "t \<in> set (remove_cell c ?K)" using set_remove_empty by blast
    then obtain u where u: "u \<in> set ?K" "t = u\<lparr>cells := cells u - {c}\<rparr>" by (blast dest: remove_cell_origin)
    with x have "x \<in> s_safes u" by simp
    with u(1) set_add_if_new(2) have "u \<in> set (knowledge a)" by fastforce
    with \<open>x \<in> s_safes u\<close> show ?thesis by blast
  qed blast
qed

lemma safes_covered_add_knowledge:
  assumes cov: "safes_covered a"
  shows "safes_covered (add_knowledge a c n)"
proof -
  let ?b = "add_knowledge a c n"
  let ?K = "add_if_new (Sentence (neighbour_cells (height a) (width a) (insert c (moves_made a)) c) n) (knowledge a)"
  note fields = add_knowledge_fields [of a c n]
  have old: "x \<in> moves_made ?b \<or> list_ex (\<lambda>s. x \<in> cells s \<and> count s = 0) (knowledge ?b)"
    if "x \<in> safes a \<union> (\<Union>s\<in>set (knowledge a). s_safes s)" for x
  proof (cases "x \<in> moves_made a \<or> x = c")
    case True
    then show ?thesis by (auto simp: fields(2))
  next
    case False
    with cov that obtain s where s: "s \<in> set (knowledge a)" "x \<in> cells s" "count s = 0"
      by (auto simp: safes_covered_def list_ex_iff)
    have "s\<lparr>cells := cells s - {c}\<rparr> \<in> set (remove_cell c ?K)"
      using s(1) set_add_if_new(1) by (blast intro: remove_cell_mem)
    moreover have "cells (s\<lparr>cells := cells s - {c}\<rparr>) \<noteq> {}" using s(2) False by auto
    ultimately have "mark_statement (s\<lparr>cells := cells s - {c}\<rparr>) \<in> set (knowledge ?b)"
      unfolding fields(1) by (rule add_knowledge_keeps_statement)
    with s(2,3) False show ?thesis by (force simp: list_ex_iff)
  qed
  show ?thesis unfolding safes_covered_def
  proof
    fix x
    assume x: "x \<in> safes ?b \<union> (\<Union>s\<in>set (knowledge ?b). s_safes s)"
    show "x \<in> moves_made ?b \<or> list_ex (\<lambda>s. x \<in> cells s \<and> count s = 0) (knowledge ?b)"
    proof (cases "\<exists>s\<in>set (knowledge ?b). x \<in> s_safes s")
      case True
      then obtain s where s: "s \<in> set (knowledge ?b)" "x \<in> s_safes s" by blast
      from add_knowledge_s_safes_origin [OF s] show ?thesis
      proof
        assume "\<exists>u\<in>set (knowledge a). x \<in> s_safes u"
        then show ?thesis using old by blast
      next
        assume "x \<in> cells s \<and> count s = 0"
        with s(1) show ?thesis by (auto simp: list_ex_iff)
      qed
    next
      case False
      with x have "x \<in> safes a \<or> x = c" by (auto simp: fields(4) fields(1))
      then show ?thesis using old [of x] by (auto simp: fields(2))
    qed
  qed
qed

lemma game_invariants_ai_init: "mines_collected (ai_init h w k) \<and> safes_covered (ai_init h w k)"
  by (simp add: mines_collected_def safes_covered_def ai_init_def)

lemma game_invariants_make_safe_move:
  assumes "make_safe_move a r a'" "mines_collected a" "safes_covered a"
  shows "mines_collected a' \<and> safes_covered a'"
proof -
  from assms(1) obtain S' where a': "a' = a\<lparr>safes := S'\<rparr>" and sub: "S' \<subseteq> safes a"
    by (auto elim!: make_safe_move_cases dest!: safe_pop_subset)
  have "safes_covered a'" using assms(3) sub unfolding safes_covered_def a' by simp blast
  with assms(2) show ?thesis by (simp add: mines_collected_def a')
qed

lemma game_invariants_make_random_move:
  assumes "mines_collected a" "safes_covered a"
  shows "mines_collected (fst (make_random_move a)) \<and> safes_covered (fst (make_random_move a))"
proof -
  let ?kb = "remove_empty 0 (knowledge a)"
  have sub: "set ?kb \<subseteq> set (knowledge a)" by (rule set_remove_empty)
  have keep: "s \<in> set ?kb" if "s \<in> set (knowledge a)" "cells s \<noteq> {}" for s
    using that by (rule remove_empty_keeps_mem)
  have "list_ex (\<lambda>s. x \<in> cells s \<and> count s = 0) ?kb"
    if "list_ex (\<lambda>s. x \<in> cells s \<and> count s = 0) (knowledge a)" for x
    using that keep by (fastforce simp: list_ex_iff)
  with assms sub show ?thesis
    by (auto simp: mines_collected_def safes_covered_def make_random_move_state list_all_iff) blast+
qed

text \<open>A pop of \<^verbatim>\<open>make_safe_move\<close> loses no information: every popped cell is
  a move made or a cell of a statement with count 0.\<close>

lemma worlds_make_safe_move:
  assumes "make_safe_move a r a'" "safes_covered a"
  shows "worlds a' = worlds a"
proof -
  from assms(1) obtain S' where a': "a' = a\<lparr>safes := S'\<rparr>" and sub: "S' \<subseteq> safes a"
    by (auto elim!: make_safe_move_cases dest!: safe_pop_subset)
  have "safes a \<inter> M = {}" if "consistent M a'" for M
  proof -
    from that have mv: "moves_made a \<inter> M = {}" and kb: "\<forall>s\<in>set (knowledge a). sentence_true M s"
      by (simp_all add: consistent_def a' list_all_iff)
    have "x \<notin> M" if x: "x \<in> safes a" for x
    proof -
      from assms(2) x
      have "x \<in> moves_made a \<or> (\<exists>s\<in>set (knowledge a). x \<in> cells s \<and> count s = 0)"
        by (auto simp: safes_covered_def list_ex_iff)
      then show ?thesis using mv kb sentence_true_all_safe by blast
    qed
    then show ?thesis by blast
  qed
  then show ?thesis using sub by (auto simp: worlds_def consistent_def a')
qed

text \<open>The cleanup loop of \<^verbatim>\<open>make_random_move\<close> loses no information when
  every empty statement has count 0.\<close>

lemma worlds_make_random_move:
  assumes "list_all (\<lambda>s. cells s = {} \<longrightarrow> count s = 0) (knowledge a)"
  shows "worlds (fst (make_random_move a)) = worlds a"
proof -
  let ?kb = "remove_empty 0 (knowledge a)"
  have "list_all (sentence_true M) (knowledge a)" if "list_all (sentence_true M) ?kb" for M
  proof -
    have "sentence_true M s" if s: "s \<in> set (knowledge a)" for s
    proof (cases "cells s = {}")
      case True
      with assms s show ?thesis by (simp add: list_all_iff sentence_true_empty)
    next
      case False
      with s have "s \<in> set ?kb" by (rule remove_empty_keeps_mem)
      with \<open>list_all (sentence_true M) ?kb\<close> show ?thesis by (simp add: list_all_iff)
    qed
    then show ?thesis by (simp add: list_all_iff)
  qed
  moreover have "list_all (sentence_true M) ?kb" if "list_all (sentence_true M) (knowledge a)" for M
    using that set_remove_empty [of 0 "knowledge a"] by (auto simp: list_all_iff)
  ultimately show ?thesis
    by (auto simp: worlds_def consistent_def make_random_move_state)
qed

subsection \<open>The refinement\<close>

lemma add_knowledge_worlds:
  assumes "marks_collected a" "ai_wf a" "observe (height a) (width a) c n (worlds a) \<noteq> {}"
  shows "worlds (add_knowledge a c n) = observe (height a) (width a) c n (worlds a)"
proof
  from assms(3) obtain M0 where "M0 \<in> observe (height a) (width a) c n (worlds a)" by blast
  then show "worlds (add_knowledge a c n) \<subseteq> observe (height a) (width a) c n (worlds a)"
    unfolding worlds_def [of "add_knowledge a c n"] by (blast intro: add_knowledge_worlds_sub)
  show "observe (height a) (width a) c n (worlds a) \<subseteq> worlds (add_knowledge a c n)"
    using assms(1,2) by (blast intro: add_knowledge_worlds_sup)
qed

text \<open>C22: \<^verbatim>\<open>add_knowledge\<close> refines the abstract observation. When the
  statements' marks are collected and the state is well formed, and the
  observation of \<open>n\<close> mines around \<open>c\<close> agrees with some world the AI
  considers possible, the worlds possible after the call are exactly those
  possible before it in which \<open>c\<close> is no mine and has \<open>n\<close> mines among its
  neighbours.\<close>

theorem add_knowledge_refines:
  assumes "marks_collected a" "ai_wf a" "observe (height a) (width a) c n (worlds a) \<noteq> {}"
  shows "worlds (add_knowledge a c n) = observe (height a) (width a) c n (worlds a)"
  using assms by (rule add_knowledge_worlds)

theorem add_knowledge_refines_witness:
  "marks_collected (ai_init 2 2 1) \<and> ai_wf (ai_init 2 2 1)
   \<and> observe 2 2 (0, 0) 1 (worlds (ai_init 2 2 1)) \<noteq> {}
   \<and> worlds (add_knowledge (ai_init 2 2 1) (0, 0) 1) = observe 2 2 (0, 0) 1 (worlds (ai_init 2 2 1))"
proof -
  have m: "marks_collected (ai_init 2 2 1)" by (rule marks_collected_ai_init)
  have w: "ai_wf (ai_init 2 2 1)" by (rule ai_wf_ai_init)
  have "board_neighbours 2 2 (0, 0) \<inter> {(1, 1)} = {(1, 1)}" by (auto simp: board_neighbours_def)
  then have "{(1, 1)} \<in> observe 2 2 (0, 0) 1 (worlds (ai_init 2 2 1))"
    by (simp add: observe_def worlds_def consistent_def ai_init_def)
  then have o: "observe 2 2 (0, 0) 1 (worlds (ai_init 2 2 1)) \<noteq> {}" by blast
  have "height (ai_init 2 2 1) = 2" "width (ai_init 2 2 1) = 2" by (simp_all add: ai_init_def)
  with add_knowledge_refines [OF m w] o m w show ?thesis by simp
qed

end
