(* ===== verification/Runs.thy ===== *)
theory Runs
  imports Game Worlds
begin

text \<open>
  Runs of observations. The driver of the CS50 project (not part of the
  repository) reveals cells one after the other and passes each to
  \<^verbatim>\<open>add_knowledge\<close> with the count \<^verbatim>\<open>Minesweeper.nearby_mines\<close> gives for
  it; \<open>observations g cs a\<close> is that loop over the list \<open>cs\<close> of revealed
  cells. Along such a run the refinement of \<open>Worlds\<close> composes: the worlds the
  AI considers possible are exactly those that agree with everything revealed
  so far (\<open>revealed_info\<close>). And once every cell without a mine has been
  revealed, every mine next to a revealed cell is in \<^verbatim>\<open>self.mines\<close>.
\<close>

definition observations :: "game \<Rightarrow> cell list \<Rightarrow> ai \<Rightarrow> ai" where
  "observations g cs a = fold (\<lambda>c b. add_knowledge b c (nearby_mines g c)) cs a"

text \<open>The mine sets that agree with the revealed cells of \<open>cs\<close>: none of
  them is a mine, and each has as many mines around it as on the board \<open>g\<close>.\<close>

definition revealed_info :: "game \<Rightarrow> cell list \<Rightarrow> cell set set" where
  "revealed_info g cs =
     {M. set cs \<inter> M = {}
         \<and> list_all (\<lambda>c. card (board_neighbours (g_height g) (g_width g) c \<inter> M)
                        = card (board_neighbours (g_height g) (g_width g) c \<inter> g_mines g)) cs}"

definition run_inv :: "game \<Rightarrow> ai \<Rightarrow> bool" where
  "run_inv g a \<longleftrightarrow>
     ai_sound (g_mines g) a \<and> ai_wf a \<and> marks_collected a
     \<and> height a = g_height g \<and> width a = g_width g"

text \<open>For every revealed cell whose neighbourhood is not all revealed, the
  knowledge holds its sentence: the unrevealed neighbours and their number of
  mines.\<close>

definition counts_known :: "game \<Rightarrow> ai \<Rightarrow> bool" where
  "counts_known g a \<longleftrightarrow>
     (\<forall>c\<in>moves_made a. board_neighbours (g_height g) (g_width g) c - moves_made a \<noteq> {} \<longrightarrow>
        (\<exists>t\<in>set (knowledge a). cells t = board_neighbours (g_height g) (g_width g) c - moves_made a
           \<and> count t = int (card (board_neighbours (g_height g) (g_width g) c \<inter> g_mines g))))"

subsection \<open>The invariant of a run\<close>

lemma observations_Nil [simp]: "observations g [] a = a"
  by (simp add: observations_def)

lemma observations_Cons [simp]:
  "observations g (c # cs) a = observations g cs (add_knowledge a c (nearby_mines g c))"
  by (simp add: observations_def)

lemma observations_snoc:
  "observations g (cs @ [c]) a = add_knowledge (observations g cs a) c (nearby_mines g c)"
  by (simp add: observations_def)

lemma run_inv_init: "run_inv g (ai_init (g_height g) (g_width g) k)"
  by (simp add: run_inv_def ai_init_sound ai_wf_ai_init marks_collected_ai_init)
     (simp add: ai_init_def)

lemma run_inv_nearby:
  "board_ok g \<Longrightarrow> run_inv g a \<Longrightarrow>
   nearby_mines g c = int (card (board_neighbours (height a) (width a) c \<inter> g_mines g))"
  by (simp add: run_inv_def nearby_mines_card)

lemma run_inv_step:
  assumes ok: "board_ok g" and inv: "run_inv g a" and c: "c \<notin> g_mines g"
  shows "run_inv g (add_knowledge a c (nearby_mines g c))"
proof -
  from inv have "ai_sound (g_mines g) a" by (simp add: run_inv_def)
  then have "ai_sound (g_mines g) (add_knowledge a c (nearby_mines g c))"
    using c run_inv_nearby [OF ok inv] by (rule add_knowledge_keeps_sound)
  with inv show ?thesis
    by (simp add: run_inv_def ai_wf_add_knowledge marks_collected_add_knowledge add_knowledge_frame)
qed

lemma run_inv_observations:
  "board_ok g \<Longrightarrow> set cs \<inter> g_mines g = {} \<Longrightarrow> run_inv g a \<Longrightarrow> run_inv g (observations g cs a)"
  by (induction cs arbitrary: a) (simp_all add: run_inv_step)

lemma moves_made_observations:
  "moves_made (observations g cs a) = moves_made a \<union> set cs"
  by (induction cs arbitrary: a) (auto simp: add_knowledge_frame)

lemma worlds_ai_init: "worlds (ai_init h w k) = UNIV"
  by (simp add: worlds_def consistent_def ai_init_def)

text \<open>Each observation of a run intersects the possible worlds with what it
  reveals.\<close>

lemma observations_worlds:
  assumes ok: "board_ok g" and "set cs \<inter> g_mines g = {}" and "run_inv g a"
  shows "worlds (observations g cs a) = worlds a \<inter> revealed_info g cs"
  using assms(2,3)
proof (induction cs arbitrary: a)
  case Nil
  then show ?case by (simp add: revealed_info_def)
next
  case (Cons c cs)
  let ?n = "nearby_mines g c"
  let ?bn = "board_neighbours (g_height g) (g_width g) c"
  have c: "c \<notin> g_mines g" and cs: "set cs \<inter> g_mines g = {}" using Cons.prems(1) by auto
  have inv': "run_inv g (add_knowledge a c ?n)" by (rule run_inv_step [OF ok Cons.prems(2) c])
  from Cons.prems(2) have h: "height a = g_height g" "width a = g_width g"
    "marks_collected a" "ai_wf a" "ai_sound (g_mines g) a"
    by (simp_all add: run_inv_def)
  have n: "?n = int (card (?bn \<inter> g_mines g))" using run_inv_nearby [OF ok Cons.prems(2)] h by simp
  have "g_mines g \<in> observe (height a) (width a) c ?n (worlds a)"
    using consistent_if_sound [OF h(5)] c n h by (simp add: observe_def worlds_def)
  then have "worlds (add_knowledge a c ?n) = observe (height a) (width a) c ?n (worlds a)"
    using h(3,4) by (intro add_knowledge_worlds) blast+
  with Cons.IH [OF cs inv'] n h show ?case
    by (auto simp: observe_def revealed_info_def)
qed

subsection \<open>The counts of the revealed cells stay known\<close>

lemma counts_known_init: "counts_known g (ai_init h w k)"
  by (simp add: counts_known_def ai_init_def)

lemma add_knowledge_keeps_rest:
  assumes "u \<in> set (add_if_new (Sentence (neighbour_cells (height a) (width a) (insert c (moves_made a)) c) n)
                     (knowledge a))"
    and "cells u - {c} \<noteq> {}"
  shows "\<exists>t\<in>set (knowledge (add_knowledge a c n)). cells t = cells u - {c} \<and> count t = count u"
proof -
  note fields = add_knowledge_fields [of a c n]
  have "u\<lparr>cells := cells u - {c}\<rparr> \<in> set (remove_cell c (add_if_new
          (Sentence (neighbour_cells (height a) (width a) (insert c (moves_made a)) c) n) (knowledge a)))"
    (is "?t \<in> _") using assms(1) by (rule remove_cell_mem)
  moreover have "cells ?t \<noteq> {}" using assms(2) by simp
  ultimately have "mark_statement ?t \<in> set (knowledge (add_knowledge a c n))"
    unfolding fields(1) by (rule add_knowledge_keeps_statement)
  then show ?thesis by (rule bexI [rotated]) simp
qed

lemma counts_known_step:
  assumes ok: "board_ok g" and inv: "run_inv g a" and known: "counts_known g a"
  shows "counts_known g (add_knowledge a c (nearby_mines g c))"
proof -
  let ?n = "nearby_mines g c"
  let ?mv = "insert c (moves_made a)"
  let ?ns = "neighbour_cells (height a) (width a) ?mv c"
  let ?K = "add_if_new (Sentence ?ns ?n) (knowledge a)"
  let ?bn = "board_neighbours (g_height g) (g_width g)"
  note fields = add_knowledge_fields [of a c ?n]
  from inv have dims: "height a = g_height g" "width a = g_width g" by (simp_all add: run_inv_def)
  have ns: "?ns = ?bn c - ?mv" using dims by (simp add: neighbour_cells_eq)
  show ?thesis
    unfolding counts_known_def fields(2)
  proof (intro ballI impI)
    fix d
    assume d: "d \<in> ?mv" and ne: "?bn d - ?mv \<noteq> {}"
    show "\<exists>t\<in>set (knowledge (add_knowledge a c ?n)). cells t = ?bn d - ?mv
            \<and> count t = int (card (?bn d \<inter> g_mines g))"
    proof (cases "d = c")
      case True
      obtain u where u: "u \<in> set ?K" "cells u = ?ns" "count u = ?n"
        using add_if_new_has [of "Sentence ?ns ?n" "knowledge a"] by auto
      have "cells u - {c} = ?bn d - ?mv" using u(2) ns True by auto
      moreover have "?n = int (card (?bn d \<inter> g_mines g))"
        using run_inv_nearby [OF ok inv] dims True by simp
      ultimately show ?thesis
        using add_knowledge_keeps_rest [OF u(1)] ne u(3) by auto
    next
      case False
      with d have "d \<in> moves_made a" by simp
      moreover have "?bn d - moves_made a \<noteq> {}" using ne by blast
      ultimately obtain t0 where t0: "t0 \<in> set (knowledge a)" "cells t0 = ?bn d - moves_made a"
        "count t0 = int (card (?bn d \<inter> g_mines g))"
        using known by (auto simp: counts_known_def)
      have "t0 \<in> set ?K" using t0(1) set_add_if_new(1) by blast
      moreover have "cells t0 - {c} = ?bn d - ?mv" using t0(2) by auto
      ultimately show ?thesis
        using add_knowledge_keeps_rest [of t0 a c ?n] ne t0(3) by auto
    qed
  qed
qed

lemma counts_known_observations:
  "board_ok g \<Longrightarrow> set cs \<inter> g_mines g = {} \<Longrightarrow> run_inv g a \<Longrightarrow> counts_known g a \<Longrightarrow>
   counts_known g (observations g cs a)"
  by (induction cs arbitrary: a) (simp_all add: run_inv_step counts_known_step)

text \<open>When \<^verbatim>\<open>add_knowledge\<close> returns, every statement whose count equals its
  number of cells has its cells in \<^verbatim>\<open>self.mines\<close>.\<close>

lemma add_knowledge_marks_mines:
  assumes "t \<in> set (knowledge (add_knowledge a c n))" "int (card (cells t)) = count t"
  shows "cells t \<subseteq> mines (add_knowledge a c n)"
proof -
  note fields = add_knowledge_fields [of a c n]
  from assms(1) obtain t0 where "t = mark_statement t0" by (auto simp: fields(1))
  with assms(2) have "cells t \<subseteq> s_mines t" by (simp add: mark_statement_def)
  with assms(1) show ?thesis by (auto simp: fields(1,3))
qed

lemma board_neighbours_grid: "board_neighbours h w c \<subseteq> grid h w"
  by (auto simp: board_neighbours_def grid_def)

subsection \<open>Properties of runs\<close>

text \<open>C23: after a run of truthful observations from a fresh AI, the worlds
  the AI considers possible are exactly the mine sets that agree with what the
  run revealed: no revealed cell is a mine, and every revealed cell has as many
  mines around it as on the board. The knowledge base loses no information and
  adds none.\<close>

theorem observations_exact:
  assumes "board_ok g" "set cs \<inter> g_mines g = {}"
  shows "worlds (observations g cs (ai_init (g_height g) (g_width g) k)) = revealed_info g cs"
  using observations_worlds [OF assms run_inv_init] by (simp add: worlds_ai_init)

text \<open>C24: once every cell without a mine has been revealed, every mine next
  to a revealed cell is in \<^verbatim>\<open>self.mines\<close>: the sentence of that cell has lost
  all its unrevealed cells but the mines, its count equals its size, and the
  last call of \<^verbatim>\<open>add_knowledge\<close> marks and collects it.\<close>

theorem observations_find_mines:
  assumes ok: "board_ok g" and cs: "set cs = grid (g_height g) (g_width g) - g_mines g"
    and m: "m \<in> g_mines g" and c: "c \<in> set cs"
    and adj: "m \<in> board_neighbours (g_height g) (g_width g) c"
  shows "m \<in> mines (observations g cs (ai_init (g_height g) (g_width g) k))"
proof -
  let ?a0 = "ai_init (g_height g) (g_width g) k"
  let ?bn = "board_neighbours (g_height g) (g_width g)"
  obtain cs' x where split: "cs = cs' @ [x]" using c by (cases cs rule: rev_cases) auto
  let ?b = "observations g cs' ?a0"
  let ?a = "observations g cs ?a0"
  have a: "?a = add_knowledge ?b x (nearby_mines g x)" by (simp add: split observations_snoc)
  have disj: "set cs \<inter> g_mines g = {}" using cs by blast
  have known: "counts_known g ?a"
    using counts_known_observations [OF ok disj run_inv_init counts_known_init] .
  have mv: "moves_made ?a = set cs"
    by (simp add: moves_made_observations) (simp add: ai_init_def)
  have "?bn c - set cs = ?bn c \<inter> g_mines g"
    using board_neighbours_grid [of "g_height g" "g_width g" c] cs by blast
  with adj m have ne: "?bn c - moves_made ?a \<noteq> {}" and eq: "?bn c - moves_made ?a = ?bn c \<inter> g_mines g"
    by (auto simp: mv)
  from known c ne obtain t where t: "t \<in> set (knowledge ?a)" "cells t = ?bn c - moves_made ?a"
    "count t = int (card (?bn c \<inter> g_mines g))"
    by (auto simp: counts_known_def mv)
  have "int (card (cells t)) = count t" using t(2,3) eq by simp
  with t(1) have "cells t \<subseteq> mines ?a" unfolding a by (rule add_knowledge_marks_mines)
  moreover have "m \<in> cells t" using t(2) eq adj m by simp
  ultimately show ?thesis by blast
qed

subsection \<open>Witnesses\<close>

theorem observations_exact_witness:
  "board_ok \<lparr>g_height = 1, g_width = 3, g_mines = {(0, 0)}, board = [ [True, False, False] ], mines_found = {}\<rparr>
   \<and> set [(0, 1), (0, 2)] \<inter> {(0::int, 0::int)} = {}
   \<and> worlds (observations \<lparr>g_height = 1, g_width = 3, g_mines = {(0, 0)}, board = [ [True, False, False] ], mines_found = {}\<rparr>
        [(0, 1), (0, 2)] (ai_init 1 3 1))
     = revealed_info \<lparr>g_height = 1, g_width = 3, g_mines = {(0, 0)}, board = [ [True, False, False] ], mines_found = {}\<rparr>
        [(0, 1), (0, 2)]"
proof -
  have ok: "board_ok \<lparr>g_height = 1, g_width = 3, g_mines = {(0, 0)}, board = [ [True, False, False] ], mines_found = {}\<rparr>"
    unfolding board_ok_code by code_simp
  have d: "set [(0, 1), (0, 2)] \<inter> {(0::int, 0::int)} = {}" by simp
  from observations_exact [OF ok, of "[(0, 1), (0, 2)]" 1] d
  have "worlds (observations \<lparr>g_height = 1, g_width = 3, g_mines = {(0, 0)}, board = [ [True, False, False] ], mines_found = {}\<rparr>
        [(0, 1), (0, 2)] (ai_init 1 3 1))
     = revealed_info \<lparr>g_height = 1, g_width = 3, g_mines = {(0, 0)}, board = [ [True, False, False] ], mines_found = {}\<rparr>
        [(0, 1), (0, 2)]"
    by (simp del: observations_Cons)
  with ok d show ?thesis by blast
qed

theorem observations_find_mines_witness:
  "board_ok \<lparr>g_height = 1, g_width = 3, g_mines = {(0, 0)}, board = [ [True, False, False] ], mines_found = {}\<rparr>
   \<and> set [(0, 2), (0, 1)] = grid 1 3 - {(0, 0)} \<and> (0, 1) \<in> set [(0::int, 2::int), (0, 1)]
   \<and> (0, 0) \<in> board_neighbours 1 3 (0, 1)
   \<and> (0, 0) \<in> mines (observations \<lparr>g_height = 1, g_width = 3, g_mines = {(0, 0)}, board = [ [True, False, False] ], mines_found = {}\<rparr>
        [(0, 2), (0, 1)] (ai_init 1 3 1))"
proof -
  have ok: "board_ok \<lparr>g_height = 1, g_width = 3, g_mines = {(0, 0)}, board = [ [True, False, False] ], mines_found = {}\<rparr>"
    unfolding board_ok_code by code_simp
  have cs: "set [(0::int, 2::int), (0, 1)] = grid 1 3 - {(0, 0)}" by (auto simp: grid_def)
  have c: "(0, 1) \<in> set [(0::int, 2::int), (0, 1)]" by simp
  have adj: "(0, 0) \<in> board_neighbours 1 3 (0, 1)" by (simp add: board_neighbours_def)
  have m: "(0::int, 0::int) \<in> {(0, 0)}" by simp
  from observations_find_mines [OF ok, of "[(0, 2), (0, 1)]" "(0, 0)" "(0, 1)" 1] cs c adj m
  have "(0, 0) \<in> mines (observations \<lparr>g_height = 1, g_width = 3, g_mines = {(0, 0)}, board = [ [True, False, False] ], mines_found = {}\<rparr>
        [(0, 2), (0, 1)] (ai_init 1 3 1))"
    by (simp del: observations_Cons)
  with ok cs c adj show ?thesis by blast
qed


end
