(* ===== verification/Spec2Isabelle.thy ===== *)
theory Spec2Isabelle
  imports Runs
begin

text \<open>
  \<^bold>\<open>A verification development of the Minesweeper AI of
  \<^verbatim>\<open>src/minesweeper.py\<close>.\<close>

  \<^bold>\<open>The program.\<close> One Python file with three classes. \<^verbatim>\<open>Minesweeper\<close>
  (lines 8--87) is the board: a grid with randomly planted mines, the count of
  mines around a cell, and the win test. \<^verbatim>\<open>Sentence\<close> (lines 90--141) is a
  logical statement ``exactly \<open>count\<close> of these cells are mines'', which also
  records the cells it has concluded to be mines or safe. \<^verbatim>\<open>MinesweeperAI\<close>
  (lines 144--396) keeps the moves made, the cells known to be mines and safe,
  and a list of statements; \<^verbatim>\<open>add_knowledge\<close> folds in one revealed cell with
  its count, derives new statements by subset resolution and collects the
  conclusive ones; \<^verbatim>\<open>make_safe_move\<close> and \<^verbatim>\<open>make_random_move\<close> choose the
  next move. A driver (not in the repository) reveals cells on the board and
  calls the AI; the board and the AI interact only through that driver.

  \<^bold>\<open>The theories.\<close>
  \<^item> \<open>Prelude\<close>: the cell type (a pair of Python integers, \<open>int \<times> int\<close>),
    the Python exceptions \<open>py_error\<close>, \<^verbatim>\<open>list.remove\<close> (\<open>remove_first\<close>) and
    list indexing (\<open>py_index\<close>), the abstract neighbourhood
    \<open>board_neighbours\<close>, and lemmas on lists and on counting mines in sets.
  \<^item> \<open>Game\<close>: \<^verbatim>\<open>Minesweeper\<close> as the record \<open>game\<close>; the mine-placing loop
    of \<^verbatim>\<open>__init__\<close> as the relation \<open>place_mines\<close> (one rule per way through
    the loop body: the draws are random and the loop need not end), the
    constructor \<open>minesweeper_init\<close>, \<open>is_mine\<close>, \<open>nearby_mines\<close> (the double
    loop as a filtered list comprehension), \<open>won\<close>; \<open>board_ok\<close> says the grid
    and the mine set agree.
  \<^item> \<open>Sentence\<close>: \<^verbatim>\<open>Sentence\<close> as the record \<open>sentence\<close>, its constructor,
    \<^verbatim>\<open>__eq__\<close> (\<open>sentence_eq\<close>, on cells and count only), \<^verbatim>\<open>mark_mine\<close>,
    \<^verbatim>\<open>mark_safe\<close>, and the marking of a whole statement (\<open>mark_statement\<close>,
    with \<open>mark_loop\<close> the literal loop); \<open>sentence_true M\<close> and
    \<open>sentence_sound M\<close> give a statement its meaning for a mine set \<open>M\<close>.
  \<^item> \<open>Knowledge\<close>: the AI's attributes as the record \<open>ai\<close>, \<^verbatim>\<open>__init__\<close>,
    the unused \<^verbatim>\<open>mark_mine\<close>/\<^verbatim>\<open>mark_safe\<close>, and \<^verbatim>\<open>add_knowledge\<close> as the
    composition, in the method's order, of one definition per block:
    \<open>neighbour_cells\<close>, \<open>add_if_new\<close>, \<open>remove_cell\<close>, \<open>remove_empty\<close> (the
    deletion of empty statements during iteration, a \<^theory_text>\<open>function\<close> on the
    iterator's index terminating by the measure \<open>length - index\<close>),
    \<open>subset_resolution\<close> (a fold of \<open>resolve_pair\<close> over
    \<open>permutations2\<close>, the snapshot \<^verbatim>\<open>itertools.permutations\<close> takes), the
    marking, \<open>collect_knowledge\<close>, and the removal of moves made from the safes.
    \<open>ai_sound M\<close> is the invariant: moves made and safes hold no mine of \<open>M\<close>,
    \<^verbatim>\<open>mines\<close> holds only mines, and every statement is sound and avoids the
    moves made.
  \<^item> \<open>Moves\<close>: \<^verbatim>\<open>make_safe_move\<close> as a relation (\<^verbatim>\<open>set.pop\<close> takes an
    arbitrary element; \<open>safe_pop\<close> is its loop) and \<^verbatim>\<open>make_random_move\<close> as a
    function returning the new state (its first loop deletes empty statements)
    and either a raised exception or the set \<open>Choose S\<close> that
    \<^verbatim>\<open>random.sample\<close> draws from; Python floats are rationals.
  \<^item> \<open>Worlds\<close>: the meaning of the knowledge base. \<open>worlds a\<close> is the
    set of mine sets consistent with the AI's state (abstract state),
    \<open>observe\<close> the abstract effect of revealing a cell with its count;
    \<open>ai_wf\<close> is well-formedness (every known cell on the board, no statement
    over a move made) and \<open>marks_collected\<close> says the statements' marks are
    in the AI's sets.
  \<^item> \<open>Runs\<close>: runs of observations (\<open>observations g cs\<close>, the driver's
    reveal loop over the cells \<open>cs\<close>) and what they establish.
  \<^item> This theory: the driver's contract as the reachability relation
    \<open>play g\<close> on a board \<open>g\<close>, the game in which the AI chooses every
    move (\<open>ai_turns\<close>), the properties that span the components, and the
    behaviours found on small boards.

  \<^bold>\<open>What is proved.\<close> Soundness of the inference engine: every block of
  \<^verbatim>\<open>add_knowledge\<close> keeps the knowledge sound (collection \<open>sound_step\<close>), so
  the whole call does (C1), and so does every state reachable in a game on a
  well-formed board (C2); hence a safe move is never a mine nor a move made
  (C3), every count stays within \<open>[0, |cells|]\<close> (C4), and \<^verbatim>\<open>safes\<close>
  never holds a move made (C20). Every reachable state is well formed (C25).
  Refinement: \<^verbatim>\<open>add_knowledge\<close> computes exactly the abstract observation on
  the set of consistent worlds (C22), so after any run of truthful reveals the
  AI's knowledge is exactly the revealed information (C23); in every state of a game, reveals, safe moves and
  random moves interleaved, the knowledge means exactly what the reveals told
  (C33), with the invariants \<open>mines_collected\<close> and \<open>safes_covered\<close> that
  survive \<^verbatim>\<open>make_safe_move\<close>'s pops; a game in which the AI chooses
  every move (\<open>ai_turns\<close>) reveals a new cell at each turn and so ends within
  \<open>h * w\<close> turns (C34); and once every
  cell without a mine is revealed every mine next to a revealed cell is in
  \<^verbatim>\<open>mines\<close> (C24). The functional behaviour of the engine: one round of
  subset resolution is complete for strictly nested pairs with non-zero counts
  (C9), conclusive statements are reflected in \<^verbatim>\<open>mines\<close> and \<^verbatim>\<open>safes\<close>
  when the call returns (C10), the deletion loop drops only empty statements
  (C19). The model writes the marking loop of lines 277--280 in closed form
  (\<open>mark_statement\<close>); \<open>mark_loop_eq\<close> shows it equal to the literal loop
  for every iteration order of the set.
  The board: \<open>nearby_mines\<close> refines the abstract count (C11); the
  mine-placing loop can end exactly when \<open>0 \<le> k \<le> h * w\<close> (C12) and
  builds a well-formed board (C18) that \<^verbatim>\<open>is_mine\<close> reads back (C28);
  \<^verbatim>\<open>is_mine\<close> follows Python indexing, negative indices and
  \<^verbatim>\<open>IndexError\<close> included (C29). Move selection: \<^verbatim>\<open>make_safe_move\<close>'s
  outcomes (C16) and the termination of its loop (C17);
  \<^verbatim>\<open>make_random_move\<close> never returns a move made (C8).

  \<^bold>\<open>What modelling showed.\<close> Proved at concrete reachable states of small
  boards: \<^verbatim>\<open>make_random_move\<close> can choose a cell it knows to be a mine (C5),
  and raises \<^verbatim>\<open>ZeroDivisionError\<close> (C6) or \<^verbatim>\<open>KeyError\<close> (C7) in ordinary
  positions where no safe move exists, and \<^verbatim>\<open>ValueError\<close> once every cell is
  revealed, where the spec returns no move (C26): on an exhausted board the
  method returns \<^verbatim>\<open>None\<close> only when a non-empty statement is left (C32); \<^verbatim>\<open>add_knowledge\<close> can
  leave an empty statement behind (C13), can hold the same statement twice
  (C21), and does not reach the fixed point the spec demands (C14); subset
  resolution skips pairs with a zero count (C27); \<^verbatim>\<open>known_safes\<close> returns
  cells outside the statement (C30), and the unused
  \<^verbatim>\<open>MinesweeperAI.mark_mine\<close> records mines in statements that do not contain
  them (C31); the spec's own end-to-end scenario does not match the board's
  adjacency (C15).

  \<^bold>\<open>Bounds and fuel.\<close> No fuel is needed: every loop of the AI runs over a
  list or a finite set (structural recursion, folds, and the measured
  \<open>remove_empty\<close>); the two iterations that may not end, the random mine placement
  and the pop loop, are relations, with separate theorems that a run ends
  (C12, C17). Python integers are unbounded and modelled as \<open>int\<close>.

  \<^bold>\<open>Not modelled.\<close> \<^verbatim>\<open>Minesweeper.print\<close>, \<^verbatim>\<open>Sentence.__str__\<close>,
  \<^verbatim>\<open>print_cells\<close>, \<^verbatim>\<open>print_count\<close> and the \<^verbatim>\<open>print\<close> calls are output
  only; the probabilities of \<^verbatim>\<open>random\<close> are abstracted to the set a choice is
  made from; the driver, which is not in the repository, is modelled by its
  contract (\<open>play\<close>), by the reveal loop (\<open>observations\<close>) and by the
  loop in which the AI plays every move (\<open>ai_turns\<close>).

  \<^bold>\<open>Plan for further work.\<close> The Python 3.11 behaviour of
  \<^verbatim>\<open>random.sample\<close> on sets (a \<^verbatim>\<open>TypeError\<close> on every call);
  the probability estimate of \<^verbatim>\<open>make_random_move\<close> against the true
  probability of a mine over the consistent worlds.
\<close>

section \<open>A game: the board and the AI together\<close>

text \<open>
  The driver that plays a game is not part of the repository. Its contract is
  the one the spec states: it reveals a cell that is not a mine and reports the
  cell with \<^verbatim>\<open>nearby_mines\<close> to \<^verbatim>\<open>add_knowledge\<close>, and it may ask the AI
  for a safe or a random move at any time (both change the AI's state). \<open>play g\<close>
  is the set of AI states reachable on the board \<open>g\<close> under this contract.
\<close>

inductive play :: "game \<Rightarrow> ai \<Rightarrow> bool" for g where
  play_start: "play g (ai_init (g_height g) (g_width g) k)"
| play_observe: "play g a \<Longrightarrow> c \<notin> g_mines g \<Longrightarrow> play g (add_knowledge a c (nearby_mines g c))"
| play_safe: "play g a \<Longrightarrow> make_safe_move a r a' \<Longrightarrow> play g a'"
| play_random: "play g a \<Longrightarrow> play g (fst (make_random_move a))"

text \<open>A game in which the AI chooses every move, as the CS50 runner plays it
  when the AI's button is pressed at each turn: ask for a safe move, and if
  there is none for a random one, and reveal the cell. \<open>ai_turns g n a\<close>
  holds when \<open>a\<close> is the AI's state after \<open>n\<close> such turns; a random cell
  that is a mine ends the game, and has no rule. A safe move needs no such
  premise: on a well-formed board it is never a mine (C3).\<close>

inductive ai_turns :: "game \<Rightarrow> nat \<Rightarrow> ai \<Rightarrow> bool" for g where
  turns_start: "ai_turns g 0 (ai_init (g_height g) (g_width g) k)"
| turns_safe: "ai_turns g n a \<Longrightarrow> make_safe_move a (Some m) a' \<Longrightarrow>
     ai_turns g (Suc n) (add_knowledge a' m (nearby_mines g m))"
| turns_random: "ai_turns g n a \<Longrightarrow> make_safe_move a None a' \<Longrightarrow>
     snd (make_random_move a') = Inr (Choose S) \<Longrightarrow> m \<in> S \<Longrightarrow> m \<notin> g_mines g \<Longrightarrow>
     ai_turns g (Suc n) (add_knowledge (fst (make_random_move a')) m (nearby_mines g m))"

text \<open>Small boards on which the behaviours below occur.\<close>

abbreviation row3_left :: game where
  "row3_left \<equiv> \<lparr>g_height = 1, g_width = 3, g_mines = {(0, 0)}, board = [ [True, False, False] ],
                 mines_found = {}\<rparr>"

abbreviation row3_mid :: game where
  "row3_mid \<equiv> \<lparr>g_height = 1, g_width = 3, g_mines = {(0, 1)}, board = [ [False, True, False] ],
                mines_found = {}\<rparr>"

abbreviation row3_clear :: game where
  "row3_clear \<equiv> \<lparr>g_height = 1, g_width = 3, g_mines = {}, board = [ [False, False, False] ],
                  mines_found = {}\<rparr>"

abbreviation row4_one :: game where
  "row4_one \<equiv> \<lparr>g_height = 1, g_width = 4, g_mines = {(0, 1)}, board = [ [False, True, False, False] ],
                mines_found = {}\<rparr>"

abbreviation row4_three :: game where
  "row4_three \<equiv> \<lparr>g_height = 1, g_width = 4, g_mines = {(0, 1), (0, 2), (0, 3)},
                  board = [ [False, True, True, True] ], mines_found = {}\<rparr>"

abbreviation grid23 :: game where
  "grid23 \<equiv> \<lparr>g_height = 2, g_width = 3, g_mines = {(0, 0), (0, 2)},
              board = [ [True, False, True], [False, False, False] ], mines_found = {}\<rparr>"

abbreviation row2_clear :: game where
  "row2_clear \<equiv> \<lparr>g_height = 1, g_width = 2, g_mines = {}, board = [ [False, False] ], mines_found = {}\<rparr>"

abbreviation clear22 :: game where
  "clear22 \<equiv> \<lparr>g_height = 2, g_width = 2, g_mines = {}, board = [ [False, False], [False, False] ],
               mines_found = {}\<rparr>"

lemma play_dims: "play g a \<Longrightarrow> height a = g_height g \<and> width a = g_width g"
proof (induction rule: play.induct)
  case (play_start k)
  then show ?case by (simp add: ai_init_def)
next
  case (play_observe a c)
  then show ?case by (simp add: add_knowledge_frame)
next
  case (play_safe a r a')
  then show ?case by (simp add: make_safe_move_frame)
next
  case (play_random a)
  then show ?case by (simp add: make_random_move_state)
qed

lemma play_invariant:
  assumes "board_ok g" and "play g a"
  shows "ai_sound (g_mines g) a"
  using assms(2)
proof (induction rule: play.induct)
  case (play_start k)
  show ?case by (rule ai_init_sound)
next
  case (play_observe a c)
  have "nearby_mines g c = int (card (board_neighbours (height a) (width a) c \<inter> g_mines g))"
    using nearby_mines_card [OF assms(1)] play_dims [OF play_observe.hyps(1)] by simp
  with play_observe show ?case by (simp add: add_knowledge_keeps_sound)
next
  case (play_safe a r a')
  then show ?case by (blast intro: make_safe_move_sound)
next
  case (play_random a)
  then show ?case by (simp add: make_random_move_sound)
qed

text \<open>C2: on a well-formed board, everything the AI knows in any reachable
  state is true: no move made and no cell of \<^verbatim>\<open>safes\<close> is a mine, every cell
  of \<^verbatim>\<open>mines\<close> is one, and every statement is a true sentence over unplayed
  cells with correct recorded marks.\<close>

theorem play_sound:
  assumes "board_ok g" and "play g a"
  shows "ai_sound (g_mines g) a"
  using assms by (rule play_invariant)

text \<open>C3: on a well-formed board, a cell returned by \<^verbatim>\<open>make_safe_move\<close> in a
  reachable state is not a mine and not a move already made.\<close>

theorem safe_move_safe:
  assumes "board_ok g" and "play g a" and "make_safe_move a (Some m) a'"
  shows "m \<notin> g_mines g \<and> m \<notin> moves_made a"
proof -
  from safe_move_outcome [OF assms(3)] have "m \<in> safes a" "m \<notin> moves_made a" by simp_all
  with play_invariant [OF assms(1,2)] show ?thesis by (auto simp: ai_sound_def)
qed

text \<open>C4: in a reachable state every statement's count lies between 0 and
  its number of cells.\<close>

theorem play_count_bounds:
  assumes "board_ok g" and "play g a" and "s \<in> set (knowledge a)"
  shows "0 \<le> count s \<and> count s \<le> int (card (cells s))"
proof -
  from play_invariant [OF assms(1,2)] assms(3) have "sentence_true (g_mines g) s"
    by (auto simp: ai_sound_def kb_sound_iff sentence_sound_def)
  then show ?thesis by (rule sentence_true_count_bounds)
qed

text \<open>C25: every reachable state is well formed: the AI's mines, safes and
  statements only mention cells of the board, no statement mentions a move
  made, and the marks a statement records lie on the board.\<close>

theorem play_well_formed:
  assumes "play g a"
  shows "ai_wf a"
  using assms
proof (induction rule: play.induct)
  case (play_start k)
  show ?case by (rule ai_wf_ai_init)
next
  case (play_observe a c)
  then show ?case by (simp add: ai_wf_add_knowledge)
next
  case (play_safe a r a')
  then show ?case by (blast intro: ai_wf_make_safe_move)
next
  case (play_random a)
  then show ?case by (simp add: ai_wf_make_random_move)
qed

text \<open>The game invariants: well-formedness, the two facts about recorded
  marks, and the meaning of the knowledge, which is exactly what the reveals
  so far have told.\<close>

lemma play_game_invariant:
  assumes ok: "board_ok g" and p: "play g a"
  shows "ai_wf a \<and> mines_collected a \<and> safes_covered a
         \<and> worlds a = {M. moves_made a \<inter> M = {}
             \<and> (\<forall>c\<in>moves_made a. card (board_neighbours (g_height g) (g_width g) c \<inter> M)
                                = card (board_neighbours (g_height g) (g_width g) c \<inter> g_mines g))}"
  using p
proof (induction rule: play.induct)
  case (play_start k)
  have "height (ai_init (g_height g) (g_width g) k) = g_height g" by (simp add: ai_init_def)
  then show ?case using game_invariants_ai_init [of "g_height g" "g_width g" k]
    by (simp add: ai_wf_ai_init worlds_ai_init) (simp add: ai_init_def)
next
  case (play_observe a c)
  let ?n = "nearby_mines g c"
  let ?bn = "board_neighbours (g_height g) (g_width g)"
  have dims: "height a = g_height g" "width a = g_width g" using play_dims [OF play_observe.hyps(1)] by simp_all
  have n: "?n = int (card (?bn c \<inter> g_mines g))" using nearby_mines_card [OF ok] by simp
  have sound: "ai_sound (g_mines g) a" by (rule play_invariant [OF ok play_observe.hyps(1)])
  have "g_mines g \<in> observe (height a) (width a) c ?n (worlds a)"
    using consistent_if_sound [OF sound] play_observe.hyps(2) n dims by (simp add: observe_def worlds_def)
  then have w: "worlds (add_knowledge a c ?n) = observe (height a) (width a) c ?n (worlds a)"
    using play_observe.IH by (intro add_knowledge_worlds_covered) blast+
  have mv: "moves_made (add_knowledge a c ?n) = insert c (moves_made a)" by (simp add: add_knowledge_frame)
  show ?case
  proof (intro conjI)
    show "ai_wf (add_knowledge a c ?n)" using play_observe.IH by (simp add: ai_wf_add_knowledge)
    show "mines_collected (add_knowledge a c ?n)" by (rule mines_collected_add_knowledge)
    show "safes_covered (add_knowledge a c ?n)" using play_observe.IH by (simp add: safes_covered_add_knowledge)
    show "worlds (add_knowledge a c ?n) = {M. moves_made (add_knowledge a c ?n) \<inter> M = {}
             \<and> (\<forall>c\<in>moves_made (add_knowledge a c ?n). card (?bn c \<inter> M) = card (?bn c \<inter> g_mines g))}"
      unfolding w mv using play_observe.IH n dims by (auto simp: observe_def)
  qed
next
  case (play_safe a r a')
  then show ?case
    using worlds_make_safe_move [OF play_safe.hyps(2)] game_invariants_make_safe_move [OF play_safe.hyps(2)]
      ai_wf_make_safe_move [OF play_safe.hyps(2)] make_safe_move_frame [OF play_safe.hyps(2)]
    by simp
next
  case (play_random a)
  have "ai_sound (g_mines g) a" by (rule play_invariant [OF ok play_random.hyps])
  then have "list_all (\<lambda>s. cells s = {} \<longrightarrow> count s = 0) (knowledge a)"
    by (auto simp: ai_sound_def kb_sound_iff list_all_iff sentence_sound_def sentence_true_empty)
  then show ?case
    using play_random.IH worlds_make_random_move game_invariants_make_random_move [of a]
      ai_wf_make_random_move [of a]
    by (simp add: make_random_move_state)
qed

text \<open>C33: in every state of a game on a well-formed board, with reveals,
  safe moves and random moves interleaved in any order, the worlds the AI
  considers possible are exactly the mine sets that agree with the revealed
  cells: none of them is a mine and each has its true number of neighbouring
  mines. The knowledge loses nothing a reveal told, and the pops of
  \<^verbatim>\<open>make_safe_move\<close> and the cleanup of \<^verbatim>\<open>make_random_move\<close> lose nothing
  either.\<close>

theorem play_knows_revealed:
  assumes "board_ok g" "play g a"
  shows "worlds a = {M. moves_made a \<inter> M = {}
             \<and> (\<forall>c\<in>moves_made a. card (board_neighbours (g_height g) (g_width g) c \<inter> M)
                                = card (board_neighbours (g_height g) (g_width g) c \<inter> g_mines g))}"
  using play_game_invariant [OF assms] by blast

text \<open>Every turn of a game the AI plays reveals a new cell of the board.\<close>

lemma random_cells_grid: "random_cells a \<subseteq> grid (height a) (width a)"
  by (auto simp: random_cells_def grid_def)

lemma ai_turns_invariant:
  assumes ok: "board_ok g" and t: "ai_turns g n a"
  shows "play g a \<and> finite (moves_made a) \<and> n = card (moves_made a)
         \<and> moves_made a \<subseteq> grid (g_height g) (g_width g)"
  using t
proof (induction rule: ai_turns.induct)
  case (turns_start k)
  show ?case by (simp add: play_start) (simp add: ai_init_def)
next
  case (turns_safe n a m a')
  from turns_safe.IH have p: "play g a" by simp
  from safe_move_outcome [OF turns_safe.hyps(2)] have m: "m \<in> safes a" "m \<notin> moves_made a" by simp_all
  have fr: "height a' = height a" "width a' = width a" "moves_made a' = moves_made a"
    using make_safe_move_frame [OF turns_safe.hyps(2)] by simp_all
  have "m \<notin> g_mines g" using m(1) play_invariant [OF ok p] by (auto simp: ai_sound_def)
  then have "play g (add_knowledge a' m (nearby_mines g m))"
    using play_safe [OF p turns_safe.hyps(2)] by (rule play_observe [rotated])
  moreover have "m \<in> grid (g_height g) (g_width g)"
    using m(1) play_game_invariant [OF ok p] play_dims [OF p] by (auto simp: ai_wf_def)
  ultimately show ?case using turns_safe.IH m(2) fr by (simp add: add_knowledge_frame)
next
  case (turns_random n a a' S m)
  from turns_random.IH have p: "play g a" by simp
  have p': "play g a'" by (rule play_safe [OF p turns_random.hyps(2)])
  have fr: "height a' = height a" "width a' = width a" "moves_made a' = moves_made a"
    using make_safe_move_frame [OF turns_random.hyps(2)] by simp_all
  have wf: "ai_wf a'" using play_game_invariant [OF ok p'] by simp
  from make_random_move_Choose [OF turns_random.hyps(3)]
  have "S \<subseteq> random_cells a' \<or> (\<exists>b\<in>set (knowledge a'). S = cells b)" .
  then have "S \<inter> moves_made a' = {} \<and> S \<subseteq> grid (height a') (width a')"
    using wf random_cells_disjoint(1) [of a'] random_cells_grid [of a']
    by (auto simp: ai_wf_def list_all_iff stmt_wf_def)
  with turns_random.hyps(4) have m: "m \<notin> moves_made a" "m \<in> grid (g_height g) (g_width g)"
    using fr play_dims [OF p] by auto
  have "play g (add_knowledge (fst (make_random_move a')) m (nearby_mines g m))"
    using play_random [OF p'] turns_random.hyps(5) by (rule play_observe)
  then show ?case using turns_random.IH m fr by (simp add: add_knowledge_frame make_random_move_state)
qed

text \<open>C34: a game in which the AI chooses every move ends: each turn reveals
  a cell of the board that was not revealed before, so on a well-formed board
  of \<open>h\<close> rows and \<open>w\<close> columns there are at most \<open>h * w\<close> turns.\<close>

theorem ai_turns_bounded:
  assumes "board_ok g" "ai_turns g n a"
  shows "n = card (moves_made a) \<and> n \<le> nat (g_height g) * nat (g_width g)"
proof -
  from ai_turns_invariant [OF assms]
  have "n = card (moves_made a)" "moves_made a \<subseteq> grid (g_height g) (g_width g)" by simp_all
  moreover from this(2) have "card (moves_made a) \<le> card (grid (g_height g) (g_width g))"
    by (rule card_mono [OF finite_grid])
  ultimately show ?thesis by (simp add: card_grid)
qed

section \<open>What the code does on small boards\<close>

lemma play_first_observation:
  "c \<notin> g_mines g \<Longrightarrow> nearby_mines g c = n \<Longrightarrow>
   play g (add_knowledge (ai_init (g_height g) (g_width g) k) c n)"
  using play_observe [OF play_start [of g k], of c] by simp

lemma play_step:
  "play g a \<Longrightarrow> c \<notin> g_mines g \<Longrightarrow> nearby_mines g c = n \<Longrightarrow> play g (add_knowledge a c n)"
  using play_observe [of g a c] by simp

lemma make_safe_move_no_safes:
  assumes "safes a = {}"
  shows "make_safe_move a None a"
proof -
  have "a\<lparr>safes := {}\<rparr> = a" using assms by (cases a) simp
  moreover have "safe_pop (moves_made a) (safes a) None {}" using assms by (simp add: pop_empty)
  ultimately show ?thesis using make_safe_move.intros [of a None "{}"] by simp
qed

text \<open>C5: \<^verbatim>\<open>make_random_move\<close> can choose a cell the AI itself has recorded
  as a mine. On a row of four cells with mines in the last three, after the
  first cell is revealed (one mine next to it), the AI knows that the second cell
  is a mine and has no safe move; its guess is drawn from the best statement,
  whose only cell is that mine, because the estimate for the other cells,
  two remaining mines over one cell, is higher.\<close>

theorem random_move_picks_known_mine:
  "board_ok row4_three
   \<and> play row4_three (add_knowledge (ai_init 1 4 3) (0, 0) 1)
   \<and> make_safe_move (add_knowledge (ai_init 1 4 3) (0, 0) 1) None (add_knowledge (ai_init 1 4 3) (0, 0) 1)
   \<and> (0, 1) \<in> mines (add_knowledge (ai_init 1 4 3) (0, 0) 1)
   \<and> snd (make_random_move (add_knowledge (ai_init 1 4 3) (0, 0) 1)) = Inr (Choose {(0, 1)})"
proof -
  have ok: "board_ok row4_three" unfolding board_ok_code by code_simp
  have "nearby_mines row4_three (0, 0) = 1" by code_simp
  then have p: "play row4_three (add_knowledge (ai_init 1 4 3) (0, 0) 1)"
    using play_first_observation [of "(0, 0)" row4_three 1 3] by simp
  have "safes (add_knowledge (ai_init 1 4 3) (0, 0) 1) = {}" by code_simp
  then have s: "make_safe_move (add_knowledge (ai_init 1 4 3) (0, 0) 1) None (add_knowledge (ai_init 1 4 3) (0, 0) 1)"
    by (rule make_safe_move_no_safes)
  have m: "(0, 1) \<in> mines (add_knowledge (ai_init 1 4 3) (0, 0) 1)" by code_simp
  have r: "snd (make_random_move (add_knowledge (ai_init 1 4 3) (0, 0) 1)) = Inr (Choose {(0, 1)})"
    by code_simp
  from ok p s m r show ?thesis by blast
qed

text \<open>C6: \<^verbatim>\<open>make_random_move\<close> can raise \<^verbatim>\<open>ZeroDivisionError\<close> (line 375).
  On a row of three cells with its mine in the middle, after the first cell is
  revealed, the AI has no safe move, and the best statement has as many cells
  as there are random cells.\<close>

theorem random_move_zero_division:
  "board_ok row3_mid
   \<and> play row3_mid (add_knowledge (ai_init 1 3 1) (0, 0) 1)
   \<and> make_safe_move (add_knowledge (ai_init 1 3 1) (0, 0) 1) None (add_knowledge (ai_init 1 3 1) (0, 0) 1)
   \<and> snd (make_random_move (add_knowledge (ai_init 1 3 1) (0, 0) 1)) = Inl ZeroDivisionError"
proof -
  have ok: "board_ok row3_mid" unfolding board_ok_code by code_simp
  have "nearby_mines row3_mid (0, 0) = 1" by code_simp
  then have p: "play row3_mid (add_knowledge (ai_init 1 3 1) (0, 0) 1)"
    using play_first_observation [of "(0, 0)" row3_mid 1 1] by simp
  have "safes (add_knowledge (ai_init 1 3 1) (0, 0) 1) = {}" by code_simp
  then have s: "make_safe_move (add_knowledge (ai_init 1 3 1) (0, 0) 1) None (add_knowledge (ai_init 1 3 1) (0, 0) 1)"
    by (rule make_safe_move_no_safes)
  have r: "snd (make_random_move (add_knowledge (ai_init 1 3 1) (0, 0) 1)) = Inl ZeroDivisionError"
    by code_simp
  from ok p s r show ?thesis by blast
qed

text \<open>C7: \<^verbatim>\<open>make_random_move\<close> can raise \<^verbatim>\<open>KeyError\<close> (line 391): on a
  row of four cells with one mine in the second, after the first cell is
  revealed, the best statement holds the known mine, which is not among the
  random cells it removes.\<close>

theorem random_move_key_error:
  "board_ok row4_one
   \<and> play row4_one (add_knowledge (ai_init 1 4 1) (0, 0) 1)
   \<and> make_safe_move (add_knowledge (ai_init 1 4 1) (0, 0) 1) None (add_knowledge (ai_init 1 4 1) (0, 0) 1)
   \<and> snd (make_random_move (add_knowledge (ai_init 1 4 1) (0, 0) 1)) = Inl KeyError"
proof -
  have ok: "board_ok row4_one" unfolding board_ok_code by code_simp
  have "nearby_mines row4_one (0, 0) = 1" by code_simp
  then have p: "play row4_one (add_knowledge (ai_init 1 4 1) (0, 0) 1)"
    using play_first_observation [of "(0, 0)" row4_one 1 1] by simp
  have "safes (add_knowledge (ai_init 1 4 1) (0, 0) 1) = {}" by code_simp
  then have s: "make_safe_move (add_knowledge (ai_init 1 4 1) (0, 0) 1) None (add_knowledge (ai_init 1 4 1) (0, 0) 1)"
    by (rule make_safe_move_no_safes)
  have r: "snd (make_random_move (add_knowledge (ai_init 1 4 1) (0, 0) 1)) = Inl KeyError"
    by code_simp
  from ok p s r show ?thesis by blast
qed

text \<open>C14: one call of \<^verbatim>\<open>add_knowledge\<close> does not run the inference to
  a fixed point, as the spec requires. On a board of two rows of three cells
  with mines in the two top corners, after the bottom corners and the top middle
  cell are revealed, one more round of subset resolution on the statements the
  call leaves would conclude that the bottom middle cell is safe, but the call
  has not added it to \<^verbatim>\<open>safes\<close>.\<close>

theorem add_knowledge_single_pass:
  "board_ok grid23
   \<and> play grid23 (add_knowledge (add_knowledge (add_knowledge (ai_init 2 3 2) (1, 0) 1) (1, 2) 1) (0, 1) 2)
   \<and> (1, 1) \<notin> g_mines grid23
   \<and> (1, 1) \<notin> safes (add_knowledge (add_knowledge (add_knowledge (ai_init 2 3 2) (1, 0) 1) (1, 2) 1) (0, 1) 2)
   \<and> (1, 1) \<notin> moves_made (add_knowledge (add_knowledge (add_knowledge (ai_init 2 3 2) (1, 0) 1) (1, 2) 1) (0, 1) 2)
   \<and> list_ex (\<lambda>s. cells s = {(1, 1)} \<and> count s = 0)
       (subset_resolution (knowledge (add_knowledge (add_knowledge (add_knowledge (ai_init 2 3 2) (1, 0) 1) (1, 2) 1) (0, 1) 2)))"
proof -
  have ok: "board_ok grid23" unfolding board_ok_code by code_simp
  have p1: "play grid23 (add_knowledge (ai_init 2 3 2) (1, 0) 1)"
    by (rule play_first_observation [of "(1, 0)" grid23 1 2, simplified]) code_simp
  have p2: "play grid23 (add_knowledge (add_knowledge (ai_init 2 3 2) (1, 0) 1) (1, 2) 1)"
    by (rule play_step [OF p1]) (simp, code_simp)
  have p3: "play grid23 (add_knowledge (add_knowledge (add_knowledge (ai_init 2 3 2) (1, 0) 1) (1, 2) 1) (0, 1) 2)"
    by (rule play_step [OF p2]) (simp, code_simp)
  have r: "(1, 1) \<notin> safes (add_knowledge (add_knowledge (add_knowledge (ai_init 2 3 2) (1, 0) 1) (1, 2) 1) (0, 1) 2)
   \<and> (1, 1) \<notin> moves_made (add_knowledge (add_knowledge (add_knowledge (ai_init 2 3 2) (1, 0) 1) (1, 2) 1) (0, 1) 2)
   \<and> list_ex (\<lambda>s. cells s = {(1, 1)} \<and> count s = 0)
       (subset_resolution (knowledge (add_knowledge (add_knowledge (add_knowledge (ai_init 2 3 2) (1, 0) 1) (1, 2) 1) (0, 1) 2)))"
    by code_simp
  from ok p3 r show ?thesis by simp
qed

text \<open>C13: the loop that deletes empty statements while iterating over the
  list (lines 241--243) skips the statement after each one it deletes, so an
  empty statement can stay in the knowledge, though the spec says that empty
  constraints are discarded: on a row of three cells without mines, revealing
  the cells from left to right leaves one.\<close>

theorem add_knowledge_keeps_empty:
  "board_ok row3_clear
   \<and> play row3_clear (add_knowledge (add_knowledge (add_knowledge (ai_init 1 3 0) (0, 0) 0) (0, 1) 0) (0, 2) 0)
   \<and> list_ex (\<lambda>s. cells s = {})
       (knowledge (add_knowledge (add_knowledge (add_knowledge (ai_init 1 3 0) (0, 0) 0) (0, 1) 0) (0, 2) 0))"
proof -
  have ok: "board_ok row3_clear" unfolding board_ok_code by code_simp
  have p1: "play row3_clear (add_knowledge (ai_init 1 3 0) (0, 0) 0)"
    by (rule play_first_observation [of "(0, 0)" row3_clear 0 0, simplified]) code_simp
  have p2: "play row3_clear (add_knowledge (add_knowledge (ai_init 1 3 0) (0, 0) 0) (0, 1) 0)"
    by (rule play_step [OF p1]) (simp, code_simp)
  have p3: "play row3_clear (add_knowledge (add_knowledge (add_knowledge (ai_init 1 3 0) (0, 0) 0) (0, 1) 0) (0, 2) 0)"
    by (rule play_step [OF p2]) (simp, code_simp)
  have r: "list_ex (\<lambda>s. cells s = {})
       (knowledge (add_knowledge (add_knowledge (add_knowledge (ai_init 1 3 0) (0, 0) 0) (0, 1) 0) (0, 2) 0))"
    by code_simp
  from ok p3 r show ?thesis by simp
qed

text \<open>C15: the spec's end-to-end scenario (a row of three cells with its mine
  at position 0, an observation at position 2 with count 1 creating the
  constraint on positions 0 and 1) does not match the board: position 2 has only
  position 1 as neighbour, \<^verbatim>\<open>nearby_mines\<close> reports 0 there, and the code
  concludes at once that position 1 is safe.\<close>

theorem spec_scenario_row3:
  "board_ok row3_left \<and> nearby_mines row3_left (0, 2) = 0
   \<and> play row3_left (add_knowledge (ai_init 1 3 1) (0, 2) 0)
   \<and> knowledge (add_knowledge (ai_init 1 3 1) (0, 2) 0)
       = [\<lparr>cells = {(0, 1)}, count = 0, s_mines = {}, s_safes = {(0, 1)}\<rparr>]
   \<and> safes (add_knowledge (ai_init 1 3 1) (0, 2) 0) = {(0, 1)}"
proof -
  have ok: "board_ok row3_left" unfolding board_ok_code by code_simp
  have n: "nearby_mines row3_left (0, 2) = 0" by code_simp
  have p: "play row3_left (add_knowledge (ai_init 1 3 1) (0, 2) 0)"
    by (rule play_first_observation [of "(0, 2)" row3_left 0 1, simplified]) (rule n)
  have k: "knowledge (add_knowledge (ai_init 1 3 1) (0, 2) 0)
       = [\<lparr>cells = {(0, 1)}, count = 0, s_mines = {}, s_safes = {(0, 1)}\<rparr>]
    \<and> safes (add_knowledge (ai_init 1 3 1) (0, 2) 0) = {(0, 1)}" by code_simp
  from ok n p k show ?thesis by simp
qed

text \<open>C20: in every reachable state no cell of \<^verbatim>\<open>safes\<close> is a move made:
  \<^verbatim>\<open>add_knowledge\<close> removes the moves made from \<^verbatim>\<open>safes\<close> before it returns
  (lines 288--295), and the move selectors never add to either set.\<close>

theorem play_safes_unplayed:
  assumes "play g a"
  shows "safes a \<inter> moves_made a = {}"
  using assms
proof (induction rule: play.induct)
  case (play_start k)
  then show ?case by (simp add: ai_init_def)
next
  case (play_observe a c)
  then show ?case by (simp add: add_knowledge_eq Let_def collect_knowledge_eq) blast
next
  case (play_safe a r a')
  then show ?case using safe_move_outcome [OF play_safe.hyps(2)] make_safe_move_frame [OF play_safe.hyps(2)]
    by (cases r) auto
next
  case (play_random a)
  then show ?case by (simp add: make_random_move_state)
qed

text \<open>C21: the knowledge can hold two statements that are equal for
  \<^verbatim>\<open>__eq__\<close>, though the spec keeps the constraints deduplicated: the check
  for an equal statement (lines 222--229) runs before the revealed cell is
  removed from the others (lines 236--238). On a 2 by 2 board without mines,
  revealing the two top cells leaves the same statement twice.\<close>

theorem add_knowledge_duplicates:
  "board_ok clear22
   \<and> play clear22 (add_knowledge (add_knowledge (ai_init 2 2 0) (0, 0) 0) (0, 1) 0)
   \<and> length (knowledge (add_knowledge (add_knowledge (ai_init 2 2 0) (0, 0) 0) (0, 1) 0)) = 2
   \<and> sentence_eq (knowledge (add_knowledge (add_knowledge (ai_init 2 2 0) (0, 0) 0) (0, 1) 0) ! 0)
                 (knowledge (add_knowledge (add_knowledge (ai_init 2 2 0) (0, 0) 0) (0, 1) 0) ! 1)"
proof -
  have ok: "board_ok clear22" unfolding board_ok_code by code_simp
  have p1: "play clear22 (add_knowledge (ai_init 2 2 0) (0, 0) 0)"
    by (rule play_first_observation [of "(0, 0)" clear22 0 0, simplified]) code_simp
  have p2: "play clear22 (add_knowledge (add_knowledge (ai_init 2 2 0) (0, 0) 0) (0, 1) 0)"
    by (rule play_step [OF p1]) (simp, code_simp)
  have r: "length (knowledge (add_knowledge (add_knowledge (ai_init 2 2 0) (0, 0) 0) (0, 1) 0)) = 2
   \<and> sentence_eq (knowledge (add_knowledge (add_knowledge (ai_init 2 2 0) (0, 0) 0) (0, 1) 0) ! 0)
                 (knowledge (add_knowledge (add_knowledge (ai_init 2 2 0) (0, 0) 0) (0, 1) 0) ! 1)"
    unfolding sentence_eq_def by code_simp
  from ok p2 r show ?thesis by simp
qed

text \<open>C26: when every cell has been revealed, \<^verbatim>\<open>make_random_move\<close>
  raises \<^verbatim>\<open>ValueError\<close> (line 347: \<^verbatim>\<open>random.sample\<close> of the empty set)
  instead of returning \<^verbatim>\<open>None\<close> as the spec's exhausted-knowledge case
  requires. On a row of two cells without mines, after both are revealed the
  knowledge holds only an empty statement, which the method deletes first.\<close>

theorem random_move_value_error:
  "board_ok row2_clear
   \<and> play row2_clear (add_knowledge (add_knowledge (ai_init 1 2 0) (0, 0) 0) (0, 1) 0)
   \<and> make_safe_move (add_knowledge (add_knowledge (ai_init 1 2 0) (0, 0) 0) (0, 1) 0) None
       (add_knowledge (add_knowledge (ai_init 1 2 0) (0, 0) 0) (0, 1) 0)
   \<and> snd (make_random_move (add_knowledge (add_knowledge (ai_init 1 2 0) (0, 0) 0) (0, 1) 0)) = Inl ValueError"
proof -
  have ok: "board_ok row2_clear" unfolding board_ok_code by code_simp
  have p1: "play row2_clear (add_knowledge (ai_init 1 2 0) (0, 0) 0)"
    by (rule play_first_observation [of "(0, 0)" row2_clear 0 0, simplified]) code_simp
  have p2: "play row2_clear (add_knowledge (add_knowledge (ai_init 1 2 0) (0, 0) 0) (0, 1) 0)"
    by (rule play_step [OF p1]) (simp, code_simp)
  have "safes (add_knowledge (add_knowledge (ai_init 1 2 0) (0, 0) 0) (0, 1) 0) = {}" by code_simp
  then have s: "make_safe_move (add_knowledge (add_knowledge (ai_init 1 2 0) (0, 0) 0) (0, 1) 0) None
       (add_knowledge (add_knowledge (ai_init 1 2 0) (0, 0) 0) (0, 1) 0)"
    by (rule make_safe_move_no_safes)
  have r: "snd (make_random_move (add_knowledge (add_knowledge (ai_init 1 2 0) (0, 0) 0) (0, 1) 0)) = Inl ValueError"
    by code_simp
  from ok p2 s r show ?thesis by blast
qed

text \<open>C27: subset resolution skips every pair in which a statement has
  count 0 (line 254), although the spec resolves every strictly nested pair:
  from \<open>{a} = 0\<close> and \<open>{a, b} = 1\<close> it does not derive \<open>{b} = 1\<close>.\<close>

theorem subset_resolution_skips_zero_count:
  "cells (Sentence {(0, 0)} 0) \<subset> cells (Sentence {(0, 0), (0, 1)} 1)
   \<and> \<not> list_ex (\<lambda>t. cells t = {(0, 1)})
         (subset_resolution [Sentence {(0, 0)} 0, Sentence {(0, 0), (0, 1)} 1])"
proof -
  have "cells (Sentence {(0::int, 0::int)} 0) \<subset> cells (Sentence {(0, 0), (0, 1)} 1)" by auto
  moreover have "\<not> list_ex (\<lambda>t. cells t = {(0::int, 1::int)})
         (subset_resolution [Sentence {(0, 0)} 0, Sentence {(0, 0), (0, 1)} 1])"
    unfolding Sentence_def by code_simp
  ultimately show ?thesis by blast
qed

text \<open>C30: \<^verbatim>\<open>known_safes\<close> can return cells that are no longer in the
  statement, though its docstring promises the cells of \<^verbatim>\<open>self.cells\<close> known
  to be safe: the recorded set keeps a cell after \<^verbatim>\<open>add_knowledge\<close> removes
  it as revealed. On a 2 by 2 board without mines, after the two top cells are
  revealed, a non-empty statement still records the revealed cell \<open>(0, 1)\<close> as
  safe.\<close>

theorem known_safes_outside_cells:
  "board_ok clear22
   \<and> play clear22 (add_knowledge (add_knowledge (ai_init 2 2 0) (0, 0) 0) (0, 1) 0)
   \<and> list_ex (\<lambda>s. cells s \<noteq> {} \<and> \<not> known_safes s \<subseteq> cells s)
       (knowledge (add_knowledge (add_knowledge (ai_init 2 2 0) (0, 0) 0) (0, 1) 0))"
proof -
  have ok: "board_ok clear22" unfolding board_ok_code by code_simp
  have p1: "play clear22 (add_knowledge (ai_init 2 2 0) (0, 0) 0)"
    by (rule play_first_observation [of "(0, 0)" clear22 0 0, simplified]) code_simp
  have p2: "play clear22 (add_knowledge (add_knowledge (ai_init 2 2 0) (0, 0) 0) (0, 1) 0)"
    by (rule play_step [OF p1]) (simp, code_simp)
  have r: "list_ex (\<lambda>s. cells s \<noteq> {} \<and> \<not> known_safes s \<subseteq> cells s)
       (knowledge (add_knowledge (add_knowledge (ai_init 2 2 0) (0, 0) 0) (0, 1) 0))"
    unfolding known_safes_def by code_simp
  from ok p2 r show ?thesis by blast
qed

text \<open>C31: the unused \<^verbatim>\<open>MinesweeperAI.mark_mine\<close> (lines 166--173) calls
  \<^verbatim>\<open>Sentence.mark_mine\<close> on every statement, and that method records the
  cell in every conclusive statement whether or not the statement contains it,
  so \<^verbatim>\<open>known_mines\<close> then returns a cell outside \<^verbatim>\<open>self.cells\<close>. On a row of
  four cells with mines in the last three, after the first cell is revealed the
  statement \<open>{(0, 1)} = 1\<close> is conclusive; marking the mine \<open>(0, 3)\<close> records it
  there.\<close>

theorem ai_mark_mine_records_outside:
  "board_ok row4_three \<and> play row4_three (add_knowledge (ai_init 1 4 3) (0, 0) 1)
   \<and> (0, 3) \<in> g_mines row4_three
   \<and> list_ex (\<lambda>s. \<not> known_mines s \<subseteq> cells s)
       (knowledge (ai_mark_mine (0, 3) (add_knowledge (ai_init 1 4 3) (0, 0) 1)))"
proof -
  have ok: "board_ok row4_three" unfolding board_ok_code by code_simp
  have p: "play row4_three (add_knowledge (ai_init 1 4 3) (0, 0) 1)"
    by (rule play_first_observation [of "(0, 0)" row4_three 1 3, simplified]) code_simp
  have r: "list_ex (\<lambda>s. \<not> known_mines s \<subseteq> cells s)
       (knowledge (ai_mark_mine (0, 3) (add_knowledge (ai_init 1 4 3) (0, 0) 1)))"
    unfolding known_mines_def ai_mark_mine_def sentence_mark_mine_def by code_simp
  from ok p r show ?thesis by simp
qed

section \<open>Witnesses\<close>

theorem play_sound_witness:
  "board_ok row4_three \<and> play row4_three (add_knowledge (ai_init 1 4 3) (0, 0) 1)
   \<and> ai_sound (g_mines row4_three) (add_knowledge (ai_init 1 4 3) (0, 0) 1)"
proof -
  have ok: "board_ok row4_three" unfolding board_ok_code by code_simp
  have p: "play row4_three (add_knowledge (ai_init 1 4 3) (0, 0) 1)"
    by (rule play_first_observation [of "(0, 0)" row4_three 1 3, simplified]) code_simp
  show ?thesis using ok p play_sound [OF ok p] by blast
qed

theorem safe_move_safe_witness:
  "board_ok row3_left \<and> play row3_left (add_knowledge (ai_init 1 3 1) (0, 2) 0)
   \<and> make_safe_move (add_knowledge (ai_init 1 3 1) (0, 2) 0) (Some (0, 1))
       ((add_knowledge (ai_init 1 3 1) (0, 2) 0)\<lparr>safes := {}\<rparr>)
   \<and> (0, 1) \<notin> g_mines row3_left \<and> (0, 1) \<notin> moves_made (add_knowledge (ai_init 1 3 1) (0, 2) 0)"
proof -
  have ok: "board_ok row3_left" unfolding board_ok_code by code_simp
  have p: "play row3_left (add_knowledge (ai_init 1 3 1) (0, 2) 0)"
    by (rule play_first_observation [of "(0, 2)" row3_left 0 1, simplified]) code_simp
  have sa: "safes (add_knowledge (ai_init 1 3 1) (0, 2) 0) = {(0, 1)}" by code_simp
  have mv: "moves_made (add_knowledge (ai_init 1 3 1) (0, 2) 0) = {(0, 2)}" by code_simp
  have "safe_pop (moves_made (add_knowledge (ai_init 1 3 1) (0, 2) 0))
          (safes (add_knowledge (ai_init 1 3 1) (0, 2) 0)) (Some (0, 1)) {}"
    unfolding sa mv using pop_return [of "(0, 1)" "{(0, 1)}" "{(0, 2)}"] by simp
  then have m: "make_safe_move (add_knowledge (ai_init 1 3 1) (0, 2) 0) (Some (0, 1))
       ((add_knowledge (ai_init 1 3 1) (0, 2) 0)\<lparr>safes := {}\<rparr>)"
    by (rule make_safe_move.intros)
  show ?thesis using ok p m safe_move_safe [OF ok p m] by blast
qed

theorem play_count_bounds_witness:
  "board_ok row4_three \<and> play row4_three (add_knowledge (ai_init 1 4 3) (0, 0) 1)
   \<and> \<lparr>cells = {(0, 1)}, count = 1, s_mines = {(0, 1)}, s_safes = {}\<rparr>
       \<in> set (knowledge (add_knowledge (ai_init 1 4 3) (0, 0) 1))
   \<and> 0 \<le> count \<lparr>cells = {(0, 1) :: cell}, count = 1, s_mines = {(0, 1)}, s_safes = {}\<rparr>
   \<and> count \<lparr>cells = {(0, 1) :: cell}, count = 1, s_mines = {(0, 1)}, s_safes = {}\<rparr>
       \<le> int (card (cells \<lparr>cells = {(0, 1) :: cell}, count = 1, s_mines = {(0, 1)}, s_safes = {}\<rparr>))"
proof -
  have ok: "board_ok row4_three" unfolding board_ok_code by code_simp
  have p: "play row4_three (add_knowledge (ai_init 1 4 3) (0, 0) 1)"
    by (rule play_first_observation [of "(0, 0)" row4_three 1 3, simplified]) code_simp
  have m: "\<lparr>cells = {(0, 1)}, count = 1, s_mines = {(0, 1)}, s_safes = {}\<rparr>
       \<in> set (knowledge (add_knowledge (ai_init 1 4 3) (0, 0) 1))" by code_simp
  show ?thesis using ok p m play_count_bounds [OF ok p m] by blast
qed

theorem play_safes_unplayed_witness:
  "play row3_left (add_knowledge (ai_init 1 3 1) (0, 2) 0)
   \<and> safes (add_knowledge (ai_init 1 3 1) (0, 2) 0) \<inter> moves_made (add_knowledge (ai_init 1 3 1) (0, 2) 0) = {}"
proof -
  have p: "play row3_left (add_knowledge (ai_init 1 3 1) (0, 2) 0)"
    by (rule play_first_observation [of "(0, 2)" row3_left 0 1, simplified]) code_simp
  show ?thesis using p play_safes_unplayed [OF p] by blast
qed

theorem play_well_formed_witness:
  "play row3_left (add_knowledge (ai_init 1 3 1) (0, 2) 0)
   \<and> ai_wf (add_knowledge (ai_init 1 3 1) (0, 2) 0)"
proof -
  have p: "play row3_left (add_knowledge (ai_init 1 3 1) (0, 2) 0)"
    by (rule play_first_observation [of "(0, 2)" row3_left 0 1, simplified]) code_simp
  show ?thesis using p play_well_formed [OF p] by blast
qed

theorem play_knows_revealed_witness:
  "board_ok row3_left \<and> play row3_left (add_knowledge (ai_init 1 3 1) (0, 2) 0)
   \<and> worlds (add_knowledge (ai_init 1 3 1) (0, 2) 0)
     = {M. moves_made (add_knowledge (ai_init 1 3 1) (0, 2) 0) \<inter> M = {}
          \<and> (\<forall>c\<in>moves_made (add_knowledge (ai_init 1 3 1) (0, 2) 0).
               card (board_neighbours 1 3 c \<inter> M) = card (board_neighbours 1 3 c \<inter> {(0, 0)}))}"
proof -
  have ok: "board_ok row3_left" unfolding board_ok_code by code_simp
  have p: "play row3_left (add_knowledge (ai_init 1 3 1) (0, 2) 0)"
    by (rule play_first_observation [of "(0, 2)" row3_left 0 1, simplified]) code_simp
  show ?thesis using ok p play_knows_revealed [OF ok p] by simp
qed

theorem ai_turns_bounded_witness:
  "board_ok row3_left
   \<and> ai_turns row3_left 1 (add_knowledge (fst (make_random_move (ai_init 1 3 1))) (0, 2) (nearby_mines row3_left (0, 2)))
   \<and> 1 = card (moves_made (add_knowledge (fst (make_random_move (ai_init 1 3 1))) (0, 2) (nearby_mines row3_left (0, 2))))
   \<and> (1::nat) \<le> nat 1 * nat 3"
proof -
  have ok: "board_ok row3_left" unfolding board_ok_code by code_simp
  have t0: "ai_turns row3_left 0 (ai_init 1 3 1)" using turns_start [of row3_left 1] by simp
  have s: "make_safe_move (ai_init 1 3 1) None (ai_init 1 3 1)"
    by (rule make_safe_move_no_safes) (simp add: ai_init_def)
  have r: "snd (make_random_move (ai_init 1 3 1)) = Inr (Choose {(0, 0), (0, 1), (0, 2)})" by code_simp
  have t1: "ai_turns row3_left 1 (add_knowledge (fst (make_random_move (ai_init 1 3 1))) (0, 2) (nearby_mines row3_left (0, 2)))"
    using turns_random [OF t0 s r, of "(0, 2)"] by simp
  show ?thesis using ok t1 ai_turns_bounded [OF ok t1] by simp
qed

end
